theory Spec2Isabelle
  imports Main
begin

section \<open>Python and tensor values\<close>

text \<open>
  The exceptions that the modules of \<^verbatim>\<open>streamvc/encoder_decoder.py\<close> and the
  framework functions they call can raise. A call that raises is the value \<open>Inl e\<close>.
\<close>

datatype error =
  AssertionError | TypeError | ValueError | RuntimeError | NotImplementedError
  | AttributeError | IndexError | EinopsError

definition and_then :: "error + 'a \<Rightarrow> ('a \<Rightarrow> error + 'b) \<Rightarrow> error + 'b" where
  "and_then r f = (case r of Inl e \<Rightarrow> Inl e | Inr v \<Rightarrow> f v)"

text \<open>
  A dense tensor is its shape and its elements, read by a multi-index with one entry per
  axis. Only the elements at indices inside the shape are part of the tensor.
\<close>

record 'a tensor =
  shape :: "nat list"
  elem :: "nat list \<Rightarrow> 'a"

definition valid_index :: "nat list \<Rightarrow> nat list \<Rightarrow> bool" where
  "valid_index sh idx = list_all2 (<) idx sh"

text \<open>\<^verbatim>\<open>torch.zeros(shape)\<close>.\<close>

definition zeros :: "nat list \<Rightarrow> 'a::zero tensor" where
  "zeros sh = \<lparr>shape = sh, elem = (\<lambda>_. 0)\<rparr>"

text \<open>
  Keyword arguments (\<^verbatim>\<open>**kwargs\<close>) are a list of names with their values.
\<close>

datatype pyval = PyInt int | PyBool bool | PyStr string | PyNone

type_synonym kwargs = "(string \<times> pyval) list"

definition kw_in :: "string \<Rightarrow> kwargs \<Rightarrow> bool" where
  "kw_in name kw = (name \<in> set (map fst kw))"

text \<open>Python truth value of a keyword value (\<^verbatim>\<open>if bias:\<close>).\<close>

fun truthy :: "pyval \<Rightarrow> bool" where
  "truthy (PyInt i) = (i \<noteq> 0)"
| "truthy (PyBool b) = b"
| "truthy (PyStr s) = (s \<noteq> [])"
| "truthy PyNone = False"

text \<open>
  The learnable parameters of one layer, as the framework creates them at construction:
  a weight tensor and a bias tensor, read by multi-index.
\<close>

record 'a params =
  weight :: "nat list \<Rightarrow> 'a"
  bias :: "nat list \<Rightarrow> 'a"

definition zero_params :: "'a::zero params" where
  "zero_params = \<lparr>weight = (\<lambda>_. 0), bias = (\<lambda>_. 0)\<rparr>"

section \<open>Framework functions used by the modules\<close>

subsection \<open>\<^verbatim>\<open>F.pad(x, pad=(p, 0), mode=mode)\<close>\<close>

text \<open>
  Pads the last axis on the left by \<open>p\<close> positions; a negative \<open>p\<close> removes the first
  \<open>-p\<close> positions instead. Mode \<^verbatim>\<open>constant\<close> fills with \<open>0\<close> (the \<^verbatim>\<open>value=0\<close> of the
  source, also the default); \<^verbatim>\<open>reflect\<close>, \<^verbatim>\<open>replicate\<close> and \<^verbatim>\<open>circular\<close> fill from the
  input and accept only inputs with two or three axes; any other mode is rejected when
  the function is called.
\<close>

definition F_pad :: "'a::zero tensor \<Rightarrow> int \<Rightarrow> string \<Rightarrow> error + 'a tensor" where
  "F_pad x p mode =
    (let sh = shape x; r = length sh; T = int (last sh) in
     if mode = ''constant'' then
       (if r = 0 \<or> T + p < 0 then Inl RuntimeError
        else Inr \<lparr>shape = butlast sh @ [nat (T + p)],
                  elem = (\<lambda>idx. if int (last idx) < p then 0
                                 else elem x (butlast idx @ [nat (int (last idx) - p)]))\<rparr>)
     else if mode = ''reflect'' then
       (if r \<noteq> 2 \<and> r \<noteq> 3 then Inl NotImplementedError
        else if T \<le> p \<or> T + p < 1 then Inl RuntimeError
        else Inr \<lparr>shape = butlast sh @ [nat (T + p)],
                  elem = (\<lambda>idx. elem x (butlast idx @ [nat \<bar>int (last idx) - p\<bar>]))\<rparr>)
     else if mode = ''replicate'' then
       (if r \<noteq> 2 \<and> r \<noteq> 3 then Inl NotImplementedError
        else if T < 1 \<or> T + p < 1 then Inl RuntimeError
        else Inr \<lparr>shape = butlast sh @ [nat (T + p)],
                  elem = (\<lambda>idx. elem x (butlast idx @ [nat (max 0 (int (last idx) - p))]))\<rparr>)
     else if mode = ''circular'' then
       (if r \<noteq> 2 \<and> r \<noteq> 3 then Inl NotImplementedError
        else if T < p \<or> T + p < 0 then Inl RuntimeError
        else Inr \<lparr>shape = butlast sh @ [nat (T + p)],
                  elem = (\<lambda>idx. elem x (butlast idx @ [nat ((int (last idx) - p) mod T)]))\<rparr>)
     else Inl NotImplementedError)"

subsection \<open>Elementwise operations and broadcasting\<close>

text \<open>An elementwise function, as \<^verbatim>\<open>nn.ELU\<close> applies one to every element.\<close>

definition tensor_map :: "('a \<Rightarrow> 'b) \<Rightarrow> 'a tensor \<Rightarrow> 'b tensor" where
  "tensor_map f x = \<lparr>shape = shape x, elem = (\<lambda>idx. f (elem x idx))\<rparr>"

text \<open>
  Broadcasting of two shapes, aligned at the last axis: two sizes are compatible when they
  are equal or one of them is 1. The function works on the reversed shapes.
\<close>

fun broadcast_rev :: "nat list \<Rightarrow> nat list \<Rightarrow> nat list option" where
  "broadcast_rev [] ys = Some ys"
| "broadcast_rev (x # xs) [] = Some (x # xs)"
| "broadcast_rev (x # xs) (y # ys) =
     (if x = y \<or> y = 1 then map_option ((#) x) (broadcast_rev xs ys)
      else if x = 1 then map_option ((#) y) (broadcast_rev xs ys)
      else None)"

definition broadcast_shapes :: "nat list \<Rightarrow> nat list \<Rightarrow> nat list option" where
  "broadcast_shapes a b = map_option rev (broadcast_rev (rev a) (rev b))"

text \<open>The index at which an operand of shape \<open>sh\<close> is read for the result index \<open>idx\<close>.\<close>

definition broadcast_index :: "nat list \<Rightarrow> nat list \<Rightarrow> nat list" where
  "broadcast_index sh idx =
     map2 (\<lambda>d i. if d = 1 then 0 else i) sh (drop (length idx - length sh) idx)"

definition tensor_binop :: "('a \<Rightarrow> 'a \<Rightarrow> 'a) \<Rightarrow> 'a tensor \<Rightarrow> 'a tensor \<Rightarrow> error + 'a tensor" where
  "tensor_binop f a b =
    (case broadcast_shapes (shape a) (shape b) of
       None \<Rightarrow> Inl RuntimeError
     | Some sh \<Rightarrow> Inr \<lparr>shape = sh,
                       elem = (\<lambda>idx. f (elem a (broadcast_index (shape a) idx))
                                        (elem b (broadcast_index (shape b) idx)))\<rparr>)"

definition tensor_add :: "'a::plus tensor \<Rightarrow> 'a tensor \<Rightarrow> error + 'a tensor" where
  "tensor_add = tensor_binop (+)"

definition tensor_mul :: "'a::times tensor \<Rightarrow> 'a tensor \<Rightarrow> error + 'a tensor" where
  "tensor_mul = tensor_binop (*)"

subsection \<open>Floating-point elements and their comparison\<close>

text \<open>
  An element of a float tensor is a number, one of the two infinities, or NaN. On the
  special values the arithmetic is that of IEEE 754: NaN is absorbing, the sum of the two
  infinities and the product of an infinity with zero are NaN. On numbers it is exact;
  the two zeros, which the comparison does not tell apart, are one number.
\<close>

datatype 'a ieee = NaN | NegInf | PosInf | Finite 'a

instantiation ieee :: (linordered_idom) "{monoid_add, times, one}"
begin

definition zero_ieee :: "'a ieee" where
  "zero_ieee = Finite 0"

definition one_ieee :: "'a ieee" where
  "one_ieee = Finite 1"

fun plus_ieee :: "'a ieee \<Rightarrow> 'a ieee \<Rightarrow> 'a ieee" where
  "NaN + y = NaN"
| "x + NaN = NaN"
| "PosInf + NegInf = NaN"
| "NegInf + PosInf = NaN"
| "PosInf + y = PosInf"
| "x + PosInf = PosInf"
| "NegInf + y = NegInf"
| "x + NegInf = NegInf"
| "Finite a + Finite b = Finite (a + b)"

fun times_ieee :: "'a ieee \<Rightarrow> 'a ieee \<Rightarrow> 'a ieee" where
  "NaN * y = NaN"
| "x * NaN = NaN"
| "PosInf * PosInf = PosInf"
| "PosInf * NegInf = NegInf"
| "NegInf * PosInf = NegInf"
| "NegInf * NegInf = PosInf"
| "PosInf * Finite b = (if b = 0 then NaN else if 0 < b then PosInf else NegInf)"
| "NegInf * Finite b = (if b = 0 then NaN else if 0 < b then NegInf else PosInf)"
| "Finite a * PosInf = (if a = 0 then NaN else if 0 < a then PosInf else NegInf)"
| "Finite a * NegInf = (if a = 0 then NaN else if 0 < a then NegInf else PosInf)"
| "Finite a * Finite b = Finite (a * b)"

instance
proof
  fix a b c :: "'a ieee"
  show "a + b + c = a + (b + c)"
    by (cases a; cases b; cases c) (simp_all add: add.assoc)
  show "0 + a = a"
    by (cases a) (simp_all add: zero_ieee_def)
  show "a + 0 = a"
    by (cases a) (simp_all add: zero_ieee_def)
qed

end




text \<open>\<^verbatim>\<open>torch.full(shape, value)\<close>.\<close>

definition full :: "nat list \<Rightarrow> 'a \<Rightarrow> 'a tensor" where
  "full sh v = \<lparr>shape = sh, elem = (\<lambda>_. v)\<rparr>"

text \<open>\<^verbatim>\<open>x.unsqueeze(dim=-1)\<close>: a new last axis of size 1.\<close>

definition unsqueeze_last :: "'a tensor \<Rightarrow> 'a tensor" where
  "unsqueeze_last x = \<lparr>shape = shape x @ [1], elem = (\<lambda>idx. elem x (butlast idx))\<rparr>"

text \<open>
  \<^verbatim>\<open>x.squeeze(dim)\<close>: the axis \<open>dim\<close> (counted from the end when negative) is removed when
  its size is 1, and the tensor is returned unchanged otherwise.
\<close>

definition tensor_squeeze :: "'a tensor \<Rightarrow> int \<Rightarrow> error + 'a tensor" where
  "tensor_squeeze x dim =
    (let sh = shape x; r = int (length sh) in
     if dim < - (max r 1) \<or> max r 1 \<le> dim then Inl IndexError
     else let i = nat (if dim < 0 then dim + r else dim) in
       if i < length sh \<and> sh ! i = 1
       then Inr \<lparr>shape = take i sh @ drop (Suc i) sh,
                 elem = (\<lambda>idx. elem x (take i idx @ [0] @ drop i idx))\<rparr>
       else Inr x)"

text \<open>
  \<^verbatim>\<open>x[..., :stop]\<close>: Python resolves a negative \<open>stop\<close> from the end of the axis and clips
  the result to the axis.
\<close>

definition slice_stop :: "nat \<Rightarrow> int \<Rightarrow> nat" where
  "slice_stop len stop =
     (if stop < 0 then nat (max 0 (int len + stop)) else min len (nat stop))"

definition slice_last_upto :: "'a tensor \<Rightarrow> int \<Rightarrow> error + 'a tensor" where
  "slice_last_upto x stop =
     (if shape x = [] then Inl IndexError
      else Inr \<lparr>shape = butlast (shape x) @ [slice_stop (last (shape x)) stop],
                elem = elem x\<rparr>)"

subsection \<open>\<^verbatim>\<open>einops\<close> rearrangements\<close>

text \<open>
  The three patterns of the source: \<^verbatim>\<open>'... samples -> ... 1 samples'\<close>, the exchange of
  the last two axes (\<^verbatim>\<open>'... embedding frames -> ... frames embedding'\<close> and
  \<^verbatim>\<open>'... frames embedding -> ... embedding frames'\<close>), and
  \<^verbatim>\<open>'... 1 samples -> ... samples'\<close>.
\<close>

datatype rearrange = AddChannel | SwapLastTwo | DropChannel

definition swap_last_two :: "'b list \<Rightarrow> 'b list" where
  "swap_last_two xs =
     (let r = length xs in take (r - 2) xs @ [xs ! (r - 1), xs ! (r - 2)])"

fun Rearrange_forward :: "rearrange \<Rightarrow> 'a tensor \<Rightarrow> error + 'a tensor" where
  "Rearrange_forward AddChannel x =
     (if length (shape x) < 1 then Inl EinopsError
      else Inr \<lparr>shape = butlast (shape x) @ [1, last (shape x)],
                elem = (\<lambda>idx. elem x (butlast (butlast idx) @ [last idx]))\<rparr>)"
| "Rearrange_forward SwapLastTwo x =
     (if length (shape x) < 2 then Inl EinopsError
      else Inr \<lparr>shape = swap_last_two (shape x),
                elem = (\<lambda>idx. elem x (swap_last_two idx))\<rparr>)"
| "Rearrange_forward DropChannel x =
     (if length (shape x) < 2 \<or> shape x ! (length (shape x) - 2) \<noteq> 1 then Inl EinopsError
      else Inr \<lparr>shape = take (length (shape x) - 2) (shape x) @ [last (shape x)],
                elem = (\<lambda>idx. elem x (butlast idx @ [0, last idx]))\<rparr>)"

subsection \<open>Keyword arguments of the framework constructors\<close>

definition kw_int :: "string \<Rightarrow> int \<Rightarrow> kwargs \<Rightarrow> error + int" where
  "kw_int name dflt kw =
     (case map_of kw name of
        None \<Rightarrow> Inr dflt
      | Some (PyInt i) \<Rightarrow> Inr i
      | Some (PyBool b) \<Rightarrow> Inr (if b then 1 else 0)
      | Some _ \<Rightarrow> Inl TypeError)"

definition kw_str :: "string \<Rightarrow> string \<Rightarrow> kwargs \<Rightarrow> error + string" where
  "kw_str name dflt kw =
     (case map_of kw name of
        None \<Rightarrow> Inr dflt
      | Some (PyStr s) \<Rightarrow> Inr s
      | Some _ \<Rightarrow> Inl TypeError)"

definition kw_bias :: "kwargs \<Rightarrow> bool" where
  "kw_bias kw = (case map_of kw ''bias'' of None \<Rightarrow> True | Some v \<Rightarrow> truthy v)"

definition kw_known :: "string list \<Rightarrow> kwargs \<Rightarrow> bool" where
  "kw_known names kw = list_all (\<lambda>name. name \<in> set names) (map fst kw)"

subsection \<open>\<^verbatim>\<open>nn.Conv1d\<close> and \<^verbatim>\<open>nn.ConvTranspose1d\<close>\<close>

text \<open>
  The fields that both framework classes inherit from their common base class, with the
  built-in padding \<^verbatim>\<open>padding=0\<close> (and \<^verbatim>\<open>output_padding=0\<close>) that the source passes. The
  sizes are Python integers.
\<close>

record 'a ConvNd =
  in_channels :: int
  out_channels :: int
  kernel_size :: int
  stride :: int
  dilation :: int
  groups :: int
  use_bias :: bool
  theta :: "'a params"

text \<open>
  \<^verbatim>\<open>nn.Conv1d.__init__(in_channels, out_channels, kernel_size, stride, padding=0,
  dilation, **kwargs)\<close>: a keyword the constructor does not have is a \<^verbatim>\<open>TypeError\<close>;
  \<^verbatim>\<open>groups\<close> must be positive and divide both channel counts; \<^verbatim>\<open>padding_mode\<close> must be
  one of the four modes of the framework; the weight tensor of shape
  \<^verbatim>\<open>(out_channels, in_channels // groups, kernel_size)\<close> cannot have a negative size. The
  parameter values that the framework's initialiser produces are the argument \<open>th\<close>.
\<close>

definition ConvNd_init ::
  "string list \<Rightarrow> int \<Rightarrow> int \<Rightarrow> int \<Rightarrow> int \<Rightarrow> int \<Rightarrow> kwargs \<Rightarrow> 'a params \<Rightarrow> error + 'a ConvNd" where
  "ConvNd_init modes cin cout k s d kw th =
    (if \<not> kw_known [''groups'', ''bias'', ''padding_mode'', ''device'', ''dtype''] kw
     then Inl TypeError
     else and_then (kw_int ''groups'' 1 kw) (\<lambda>g.
       if g \<le> 0 \<or> cin mod g \<noteq> 0 \<or> cout mod g \<noteq> 0 then Inl ValueError
       else and_then (kw_str ''padding_mode'' ''zeros'' kw) (\<lambda>pm.
         if pm \<notin> set modes then Inl ValueError
         else if cout < 0 \<or> cin < 0 \<or> k < 0 then Inl RuntimeError
         else Inr \<lparr>in_channels = cin, out_channels = cout, kernel_size = k, stride = s,
                   dilation = d, groups = g, use_bias = kw_bias kw, theta = th\<rparr>)))"

definition Conv1d_init ::
  "int \<Rightarrow> int \<Rightarrow> int \<Rightarrow> int \<Rightarrow> int \<Rightarrow> kwargs \<Rightarrow> 'a params \<Rightarrow> error + 'a ConvNd" where
  "Conv1d_init = ConvNd_init [''zeros'', ''reflect'', ''replicate'', ''circular'']"

text \<open>
  \<^verbatim>\<open>nn.ConvTranspose1d.__init__\<close> is the same, except that it supports the padding mode
  \<^verbatim>\<open>zeros\<close> only.
\<close>

definition ConvTranspose1d_init ::
  "int \<Rightarrow> int \<Rightarrow> int \<Rightarrow> int \<Rightarrow> int \<Rightarrow> kwargs \<Rightarrow> 'a params \<Rightarrow> error + 'a ConvNd" where
  "ConvTranspose1d_init = ConvNd_init [''zeros'']"

text \<open>
  \<^verbatim>\<open>nn.Conv1d.forward\<close> (cross-correlation without padding): the input has the axes
  \<^verbatim>\<open>(channels, time)\<close> or \<^verbatim>\<open>(batch, channels, time)\<close>, its channel count is
  \<^verbatim>\<open>in_channels\<close>, and the kernel with its dilation must fit into the time axis. The
  output at time \<open>j\<close> reads the input at times \<open>j * stride + m * dilation\<close> for
  \<open>m < kernel_size\<close>.
\<close>

definition Conv1d_elem :: "('a::semiring_0, 'z) ConvNd_scheme \<Rightarrow> 'a tensor \<Rightarrow> nat list \<Rightarrow> 'a" where
  "Conv1d_elem cv x idx =
    (let r = length (shape x);
         b = take (r - 2) idx; oc = idx ! (r - 2); j = idx ! (r - 1);
         cg = nat (in_channels cv div groups cv);
         og = nat (out_channels cv div groups cv)
     in (if use_bias cv then bias (theta cv) [oc] else 0) +
        (\<Sum>c\<leftarrow>[0..<cg]. \<Sum>m\<leftarrow>[0..<nat (kernel_size cv)].
           weight (theta cv) [oc, c, m] *
           elem x (b @ [(oc div og) * cg + c, nat (int j * stride cv + int m * dilation cv)])))"

definition Conv1d_forward :: "('a::semiring_0, 'z) ConvNd_scheme \<Rightarrow> 'a tensor \<Rightarrow> error + 'a tensor" where
  "Conv1d_forward cv x =
    (let sh = shape x; r = length sh; k = kernel_size cv; s = stride cv; d = dilation cv in
     if r \<noteq> 2 \<and> r \<noteq> 3 then Inl RuntimeError
     else if int (sh ! (r - 2)) \<noteq> in_channels cv then Inl RuntimeError
     else if k < 1 \<or> s < 1 \<or> d < 1 then Inl RuntimeError
     else if int (sh ! (r - 1)) < d * (k - 1) + 1 then Inl RuntimeError
     else Inr \<lparr>shape = take (r - 2) sh @
                        [nat (out_channels cv), nat ((int (sh ! (r - 1)) - d * (k - 1) - 1) div s + 1)],
               elem = Conv1d_elem cv x\<rparr>)"

text \<open>
  \<^verbatim>\<open>nn.ConvTranspose1d.forward\<close> with \<^verbatim>\<open>padding=0\<close> and \<^verbatim>\<open>output_padding=0\<close>: the input at
  time \<open>i\<close> contributes to the outputs at times \<open>i * stride + m * dilation\<close> for
  \<open>m < kernel_size\<close>, so the output has \<open>(T - 1) * stride + dilation * (kernel_size - 1) + 1\<close>
  time steps. The weight has the shape \<^verbatim>\<open>(in_channels, out_channels // groups,
  kernel_size)\<close>. An input without time steps is rejected.
\<close>

definition ConvTranspose1d_elem ::
  "('a::semiring_0, 'z) ConvNd_scheme \<Rightarrow> 'a tensor \<Rightarrow> nat list \<Rightarrow> 'a" where
  "ConvTranspose1d_elem ct x idx =
    (let r = length (shape x); T = shape x ! (r - 1);
         b = take (r - 2) idx; oc = idx ! (r - 2); j = idx ! (r - 1);
         cg = nat (in_channels ct div groups ct);
         og = nat (out_channels ct div groups ct)
     in (if use_bias ct then bias (theta ct) [oc] else 0) +
        (\<Sum>c\<leftarrow>[0..<cg]. \<Sum>i\<leftarrow>[0..<T]. \<Sum>m\<leftarrow>[0..<nat (kernel_size ct)].
           if int i * stride ct + int m * dilation ct = int j
           then elem x (b @ [(oc div og) * cg + c, i]) *
                weight (theta ct) [(oc div og) * cg + c, oc mod og, m]
           else 0))"

definition ConvTranspose1d_forward ::
  "('a::semiring_0, 'z) ConvNd_scheme \<Rightarrow> 'a tensor \<Rightarrow> error + 'a tensor" where
  "ConvTranspose1d_forward ct x =
    (let sh = shape x; r = length sh; k = kernel_size ct; s = stride ct; d = dilation ct in
     if r \<noteq> 2 \<and> r \<noteq> 3 then Inl RuntimeError
     else if int (sh ! (r - 2)) \<noteq> in_channels ct then Inl RuntimeError
     else if k < 1 \<or> s < 1 \<or> d < 1 then Inl RuntimeError
     else if sh ! (r - 1) < 1 then Inl RuntimeError
     else Inr \<lparr>shape = take (r - 2) sh @
                        [nat (out_channels ct), nat ((int (sh ! (r - 1)) - 1) * s + d * (k - 1) + 1)],
               elem = ConvTranspose1d_elem ct x\<rparr>)"

subsection \<open>\<^verbatim>\<open>nn.Linear\<close>\<close>

record 'a Linear =
  in_features :: int
  out_features :: int
  lin_theta :: "'a params"

definition Linear_init :: "int \<Rightarrow> int \<Rightarrow> 'a params \<Rightarrow> error + 'a Linear" where
  "Linear_init n_in n_out th =
     (if n_in < 0 \<or> n_out < 0 then Inl RuntimeError
      else Inr \<lparr>in_features = n_in, out_features = n_out, lin_theta = th\<rparr>)"

definition Linear_forward :: "'a::{monoid_add,times} Linear \<Rightarrow> 'a tensor \<Rightarrow> error + 'a tensor" where
  "Linear_forward lin x =
     (if shape x = [] \<or> int (last (shape x)) \<noteq> in_features lin then Inl RuntimeError
      else Inr \<lparr>shape = butlast (shape x) @ [nat (out_features lin)],
                elem = (\<lambda>idx. bias (lin_theta lin) [last idx] +
                   (\<Sum>i\<leftarrow>[0..<nat (in_features lin)].
                      elem x (butlast idx @ [i]) * weight (lin_theta lin) [last idx, i]))\<rparr>)"

section \<open>The causal convolutions\<close>

text \<open>
  \<^verbatim>\<open>class CausalConv1d(nn.Conv1d)\<close>: the convolution, extended by the left padding
  \<^verbatim>\<open>self.pad = partial(F.pad, pad=(causal_padding, 0), mode=...)\<close>. The constructor
  stores the padding mode without looking at it.
\<close>

record 'a CausalConv1d = "'a ConvNd" +
  causal_padding :: int
  pad_mode :: string

definition CausalConv1d_init ::
  "int \<Rightarrow> int \<Rightarrow> int \<Rightarrow> int \<Rightarrow> int \<Rightarrow> string \<Rightarrow> kwargs \<Rightarrow> 'a params \<Rightarrow> error + 'a CausalConv1d" where
  "CausalConv1d_init cin cout k s d padding_mode kw th =
    (if kw_in ''padding'' kw then Inl AssertionError
     else and_then (Conv1d_init cin cout k s d kw th) (\<lambda>cv.
       Inr (ConvNd.extend cv
         \<lparr>causal_padding = d * (k - 1) - (s - 1),
          pad_mode = (if padding_mode = ''zeros'' then ''constant'' else padding_mode)\<rparr>)))"

definition CausalConv1d_forward :: "'a::semiring_0 CausalConv1d \<Rightarrow> 'a tensor \<Rightarrow> error + 'a tensor" where
  "CausalConv1d_forward cv x =
     and_then (F_pad x (causal_padding cv) (pad_mode cv)) (Conv1d_forward cv)"

text \<open>
  A call \<^verbatim>\<open>CausalConv1d(in_channels, out_channels, kernel_size, **kw)\<close>: Python binds the
  keywords \<^verbatim>\<open>stride\<close>, \<^verbatim>\<open>dilation\<close> and \<^verbatim>\<open>padding_mode\<close> to the parameters of the
  constructor (with their defaults 1, 1 and \<^verbatim>\<open>zeros\<close>) and collects the others as
  \<^verbatim>\<open>**kwargs\<close>. A keyword that names one of the three positional parameters is given twice.
  A keyword value that is not an integer (for \<^verbatim>\<open>stride\<close>, \<^verbatim>\<open>dilation\<close>) or not a string
  (for \<^verbatim>\<open>padding_mode\<close>) is refused here, at the call.
\<close>

definition CausalConv1d_call ::
  "int \<Rightarrow> int \<Rightarrow> int \<Rightarrow> kwargs \<Rightarrow> 'a params \<Rightarrow> error + 'a CausalConv1d" where
  "CausalConv1d_call cin cout k kw th =
    (if kw_in ''in_channels'' kw \<or> kw_in ''out_channels'' kw \<or> kw_in ''kernel_size'' kw
     then Inl TypeError
     else and_then (kw_int ''stride'' 1 kw) (\<lambda>s.
          and_then (kw_int ''dilation'' 1 kw) (\<lambda>d.
          and_then (kw_str ''padding_mode'' ''zeros'' kw) (\<lambda>pm.
            CausalConv1d_init cin cout k s d pm
              (filter (\<lambda>(name, _). name \<notin> set [''stride'', ''dilation'', ''padding_mode'']) kw)
              th))))"

text \<open>
  \<^verbatim>\<open>class CausalConvTranspose1d(nn.ConvTranspose1d)\<close>, whose \<^verbatim>\<open>forward\<close> returns
  \<^verbatim>\<open>out[..., :-self.causal_trim]\<close>.
\<close>

record 'a CausalConvTranspose1d = "'a ConvNd" +
  causal_trim :: int

definition CausalConvTranspose1d_init ::
  "int \<Rightarrow> int \<Rightarrow> int \<Rightarrow> int \<Rightarrow> int \<Rightarrow> kwargs \<Rightarrow> 'a params \<Rightarrow> error + 'a CausalConvTranspose1d" where
  "CausalConvTranspose1d_init cin cout k s d kw th =
    (if kw_in ''padding'' kw then Inl AssertionError
     else if kw_in ''output_padding'' kw then Inl AssertionError
     else and_then (ConvTranspose1d_init cin cout k s d kw th) (\<lambda>ct.
       Inr (ConvNd.extend ct \<lparr>causal_trim = d * (k - 1) - (s - 1)\<rparr>)))"

definition CausalConvTranspose1d_forward ::
  "'a::semiring_0 CausalConvTranspose1d \<Rightarrow> 'a tensor \<Rightarrow> error + 'a tensor" where
  "CausalConvTranspose1d_forward ct x =
     and_then (ConvTranspose1d_forward ct x) (\<lambda>out. slice_last_upto out (- causal_trim ct))"

section \<open>FiLM conditioning\<close>

text \<open>
  \<^verbatim>\<open>class FiLM\<close>: two linear maps from the conditioning vector to one scale and one
  shift per channel; \<^verbatim>\<open>forward\<close> returns \<^verbatim>\<open>x * gamma + beta\<close>, both broadcast along the
  time axis.
\<close>

record 'a FiLM =
  to_gamma :: "'a Linear"
  to_beta :: "'a Linear"

definition FiLM_init :: "int \<Rightarrow> int \<Rightarrow> 'a params \<Rightarrow> 'a params \<Rightarrow> error + 'a FiLM" where
  "FiLM_init dim conditioning_dim th_gamma th_beta =
     and_then (Linear_init conditioning_dim dim th_gamma) (\<lambda>g.
     and_then (Linear_init conditioning_dim dim th_beta) (\<lambda>b.
       Inr \<lparr>to_gamma = g, to_beta = b\<rparr>))"

definition FiLM_forward :: "'a::{monoid_add,times} FiLM \<Rightarrow> 'a tensor \<Rightarrow> 'a tensor \<Rightarrow> error + 'a tensor" where
  "FiLM_forward film x condition =
     and_then (Linear_forward (to_gamma film) condition) (\<lambda>g.
     and_then (Linear_forward (to_beta film) condition) (\<lambda>b.
     and_then (tensor_mul x (unsqueeze_last g)) (\<lambda>xg.
       tensor_add xg (unsqueeze_last b))))"

section \<open>Modules and their composition\<close>

text \<open>
  The modules that the source composes. \<^verbatim>\<open>nn.Sequential\<close> and \<^verbatim>\<open>SequentialWithFiLM\<close>
  hold their stages in order, \<^verbatim>\<open>Residual\<close> holds the wrapped transform \<^verbatim>\<open>fn\<close>.
\<close>

datatype 'a module =
    MRearrange rearrange
  | MCausalConv1d "'a CausalConv1d"
  | MCausalConvTranspose1d "'a CausalConvTranspose1d"
  | MELU
  | MFiLM "'a FiLM"
  | Sequential "'a module list"
  | SequentialWithFiLM "'a module list"
  | Residual "'a module"

text \<open>
  \<open>forward elu m x\<close> is the call \<^verbatim>\<open>m(x)\<close> with one argument, where \<open>elu\<close> is the scalar
  function that \<^verbatim>\<open>nn.ELU\<close> applies. \<^verbatim>\<open>nn.Sequential.forward\<close> feeds each stage the result
  of the one before; \<^verbatim>\<open>Residual.forward\<close> returns \<^verbatim>\<open>self.fn(x) + x\<close>. The \<^verbatim>\<open>forward\<close>
  methods of \<^verbatim>\<open>FiLM\<close> and \<^verbatim>\<open>SequentialWithFiLM\<close> need a second argument.
\<close>

fun forward :: "('a \<Rightarrow> 'a) \<Rightarrow> 'a::semiring_0 module \<Rightarrow> 'a tensor \<Rightarrow> error + 'a tensor"
  and Sequential_forward :: "('a \<Rightarrow> 'a) \<Rightarrow> 'a module list \<Rightarrow> 'a tensor \<Rightarrow> error + 'a tensor" where
  "forward elu (MRearrange pat) x = Rearrange_forward pat x"
| "forward elu (MCausalConv1d cv) x = CausalConv1d_forward cv x"
| "forward elu (MCausalConvTranspose1d ct) x = CausalConvTranspose1d_forward ct x"
| "forward elu MELU x = Inr (tensor_map elu x)"
| "forward elu (MFiLM film) x = Inl TypeError"
| "forward elu (Sequential ms) x = Sequential_forward elu ms x"
| "forward elu (SequentialWithFiLM ms) x = Inl TypeError"
| "forward elu (Residual fn) x =
     (case forward elu fn x of Inl e \<Rightarrow> Inl e | Inr y \<Rightarrow> tensor_add y x)"
| "Sequential_forward elu [] x = Inr x"
| "Sequential_forward elu (m # ms) x =
     (case forward elu m x of Inl e \<Rightarrow> Inl e | Inr y \<Rightarrow> Sequential_forward elu ms y)"

text \<open>
  \<^verbatim>\<open>SequentialWithFiLM.forward(input, condition)\<close>: a stage that is a \<^verbatim>\<open>FiLM\<close> is called
  with the condition, every other stage with the input alone.
\<close>

fun SequentialWithFiLM_forward ::
  "('a \<Rightarrow> 'a) \<Rightarrow> 'a::semiring_0 module list \<Rightarrow> 'a tensor \<Rightarrow> 'a tensor \<Rightarrow> error + 'a tensor" where
  "SequentialWithFiLM_forward elu [] input condition = Inr input"
| "SequentialWithFiLM_forward elu (MFiLM film # ms) input condition =
     (case FiLM_forward film input condition of
        Inl e \<Rightarrow> Inl e
      | Inr y \<Rightarrow> SequentialWithFiLM_forward elu ms y condition)"
| "SequentialWithFiLM_forward elu (m # ms) input condition =
     (case forward elu m input of
        Inl e \<Rightarrow> Inl e
      | Inr y \<Rightarrow> SequentialWithFiLM_forward elu ms y condition)"

text \<open>
  The arguments of a constructor call are evaluated from left to right, and the first one
  that raises ends the construction.
\<close>

fun sequence :: "(error + 'b) list \<Rightarrow> error + 'b list" where
  "sequence [] = Inr []"
| "sequence (r # rs) =
     (case r of
        Inl e \<Rightarrow> Inl e
      | Inr v \<Rightarrow> (case sequence rs of Inl e \<Rightarrow> Inl e | Inr vs \<Rightarrow> Inr (v # vs)))"

text \<open>
  The parameters of a model are stored by the path of the layer that owns them; the
  parameters below the child \<open>i\<close> of a module are those whose path starts with \<open>i\<close>.
\<close>

type_synonym 'a store = "nat list \<Rightarrow> 'a params"

definition child :: "nat \<Rightarrow> 'a store \<Rightarrow> 'a store" where
  "child i st = (\<lambda>path. st (i # path))"

definition ResidualUnit :: "int \<Rightarrow> int \<Rightarrow> int \<Rightarrow> kwargs \<Rightarrow> 'a store \<Rightarrow> error + 'a module" where
  "ResidualUnit channels dil ksize kw st =
     and_then (sequence
       [map_sum id MCausalConv1d
          (CausalConv1d_call channels channels ksize ((''dilation'', PyInt dil) # kw) (st [0])),
        Inr MELU,
        map_sum id MCausalConv1d (CausalConv1d_call channels channels 1 kw (st [2])),
        Inr MELU])
       (\<lambda>ms. Inr (Residual (Sequential ms)))"

definition EncoderBlock :: "int \<Rightarrow> int \<Rightarrow> int \<Rightarrow> 'a store \<Rightarrow> error + 'a module" where
  "EncoderBlock cin cout s st =
     and_then (sequence
       [ResidualUnit cin 1 7 [] (child 0 st),
        ResidualUnit cin 3 7 [] (child 1 st),
        ResidualUnit cin 9 7 [] (child 2 st),
        map_sum id MCausalConv1d (CausalConv1d_init cin cout (2 * s) s 1 ''zeros'' [] (st [3])),
        Inr MELU])
       (\<lambda>ms. Inr (Sequential ms))"

definition DecoderBlock :: "int \<Rightarrow> int \<Rightarrow> int \<Rightarrow> 'a store \<Rightarrow> error + 'a module" where
  "DecoderBlock cin cout s st =
     and_then (sequence
       [map_sum id MCausalConvTranspose1d
          (CausalConvTranspose1d_init cin cout (2 * s) s 1 [] (st [0])),
        ResidualUnit cout 1 7 [] (child 1 st),
        ResidualUnit cout 3 7 [] (child 2 st),
        ResidualUnit cout 9 7 [] (child 3 st)])
       (\<lambda>ms. Inr (Sequential ms))"

section \<open>Encoder and Decoder\<close>

text \<open>\<^verbatim>\<open>class Encoder\<close>: the field \<^verbatim>\<open>self.encoder\<close> and \<^verbatim>\<open>forward\<close>, which calls it.\<close>

definition Encoder :: "int \<Rightarrow> int \<Rightarrow> 'a store \<Rightarrow> error + 'a module" where
  "Encoder scale embedding_dim st =
     and_then (sequence
       [Inr (MRearrange AddChannel),
        map_sum id MCausalConv1d (CausalConv1d_init 1 scale 7 1 1 ''zeros'' [] (st [1])),
        Inr MELU,
        EncoderBlock scale (2 * scale) 2 (child 3 st),
        EncoderBlock (2 * scale) (4 * scale) 4 (child 4 st),
        EncoderBlock (4 * scale) (8 * scale) 5 (child 5 st),
        EncoderBlock (8 * scale) (16 * scale) 8 (child 6 st),
        map_sum id MCausalConv1d
          (CausalConv1d_init (16 * scale) embedding_dim 3 1 1 ''zeros'' [] (st [7])),
        Inr MELU,
        Inr (MRearrange SwapLastTwo)])
       (\<lambda>ms. Inr (Sequential ms))"

definition Encoder_forward :: "('a \<Rightarrow> 'a) \<Rightarrow> 'a::semiring_0 module \<Rightarrow> 'a tensor \<Rightarrow> error + 'a tensor" where
  "Encoder_forward elu encoder x = forward elu encoder x"

text \<open>
  \<^verbatim>\<open>class Decoder\<close>: the field \<^verbatim>\<open>self.decoder\<close>, a \<^verbatim>\<open>SequentialWithFiLM\<close>, and \<^verbatim>\<open>forward\<close>,
  which calls it with the embeddings and the condition. The two linear maps of the FiLM
  stage \<open>i\<close> own the parameters at the paths \<open>[i, 0]\<close> and \<open>[i, 1]\<close>.
\<close>

definition Decoder :: "int \<Rightarrow> int \<Rightarrow> int \<Rightarrow> 'a store \<Rightarrow> error + 'a module" where
  "Decoder scale embedding_dim conditioning_dim st =
     and_then (sequence
       [Inr (MRearrange SwapLastTwo),
        map_sum id MCausalConv1d
          (CausalConv1d_init embedding_dim (16 * scale) 7 1 1 ''zeros'' [] (st [1])),
        Inr MELU,
        DecoderBlock (16 * scale) (8 * scale) 8 (child 3 st),
        map_sum id MFiLM (FiLM_init (8 * scale) conditioning_dim (st [4, 0]) (st [4, 1])),
        DecoderBlock (8 * scale) (4 * scale) 5 (child 5 st),
        map_sum id MFiLM (FiLM_init (4 * scale) conditioning_dim (st [6, 0]) (st [6, 1])),
        DecoderBlock (4 * scale) (2 * scale) 4 (child 7 st),
        map_sum id MFiLM (FiLM_init (2 * scale) conditioning_dim (st [8, 0]) (st [8, 1])),
        DecoderBlock (2 * scale) scale 2 (child 9 st),
        map_sum id MFiLM (FiLM_init scale conditioning_dim (st [10, 0]) (st [10, 1])),
        map_sum id MCausalConv1d (CausalConv1d_init scale 1 7 1 1 ''zeros'' [] (st [11])),
        Inr (MRearrange DropChannel)])
       (\<lambda>ms. Inr (SequentialWithFiLM ms))"

fun Decoder_forward ::
  "('a \<Rightarrow> 'a) \<Rightarrow> 'a::semiring_0 module \<Rightarrow> 'a tensor \<Rightarrow> 'a tensor \<Rightarrow> error + 'a tensor" where
  "Decoder_forward elu (SequentialWithFiLM ms) x condition =
     SequentialWithFiLM_forward elu ms x condition"
| "Decoder_forward elu decoder x condition = Inl TypeError"

section \<open>LearnablePooling\<close>

text \<open>
  \<^verbatim>\<open>nn.MultiheadAttention(dim, num_heads=1, bias=False, batch_first=True)\<close>. Its
  \<^verbatim>\<open>forward(query, key, value)\<close> checks that the three arguments are all unbatched (two
  axes) or all batched (three axes), that the last axis of the query is \<^verbatim>\<open>embed_dim\<close> and
  that key and value have the same shape, and returns the pair of the attention output
  and the attention weights. The numbers it computes are the argument \<open>att\<close>.
\<close>

record MultiheadAttention =
  embed_dim :: int
  num_heads :: int

definition MultiheadAttention_init :: "int \<Rightarrow> int \<Rightarrow> error + MultiheadAttention" where
  "MultiheadAttention_init dim heads =
     (if dim \<le> 0 \<or> heads \<le> 0 then Inl ValueError
      else if dim mod heads \<noteq> 0 then Inl AssertionError
      else Inr \<lparr>embed_dim = dim, num_heads = heads\<rparr>)"

type_synonym 'a attention =
  "'a tensor \<Rightarrow> 'a tensor \<Rightarrow> 'a tensor \<Rightarrow> (nat list \<Rightarrow> 'a) \<times> (nat list \<Rightarrow> 'a)"

definition MultiheadAttention_forward ::
  "'a attention \<Rightarrow> MultiheadAttention \<Rightarrow> 'a tensor \<Rightarrow> 'a tensor \<Rightarrow> 'a tensor
     \<Rightarrow> error + 'a tensor \<times> 'a tensor" where
  "MultiheadAttention_forward att mha query key val =
    (let q = shape query; k = shape key; v = shape val; r = length q in
     if r \<noteq> 2 \<and> r \<noteq> 3 then Inl AssertionError
     else if length k \<noteq> r \<or> length v \<noteq> r then Inl AssertionError
     else if int (last q) \<noteq> embed_dim mha then Inl AssertionError
     else if k \<noteq> v then Inl AssertionError
     else if last k \<noteq> last q \<or> (r = 3 \<and> hd k \<noteq> hd q) then Inl RuntimeError
     else Inr (\<lparr>shape = q, elem = fst (att query key val)\<rparr>,
               \<lparr>shape = butlast q @ [k ! (r - 2)], elem = snd (att query key val)\<rparr>))"

text \<open>
  A Python value on which the source calls the method \<^verbatim>\<open>squeeze\<close>: a tensor has it, a
  tuple does not.
\<close>

datatype 'a pyobj = PyTensor "'a tensor" | PyTuple "'a pyobj list"

fun squeeze_method :: "'a pyobj \<Rightarrow> int \<Rightarrow> error + 'a tensor" where
  "squeeze_method (PyTensor x) dim = tensor_squeeze x dim"
| "squeeze_method (PyTuple xs) dim = Inl AttributeError"

text \<open>\<^verbatim>\<open>torch.ones(shape)\<close>.\<close>

definition ones :: "nat list \<Rightarrow> 'a::one tensor" where
  "ones sh = \<lparr>shape = sh, elem = (\<lambda>_. 1)\<rparr>"

record 'a LearnablePooling =
  pooling_weights :: "'a tensor"
  attention :: MultiheadAttention

definition LearnablePooling_init :: "int \<Rightarrow> error + 'a::one LearnablePooling" where
  "LearnablePooling_init dim =
     (if dim < 0 then Inl RuntimeError
      else and_then (MultiheadAttention_init dim 1) (\<lambda>a.
        Inr \<lparr>pooling_weights = ones [1, nat dim], attention = a\<rparr>))"

definition LearnablePooling_forward ::
  "'a attention \<Rightarrow> 'a LearnablePooling \<Rightarrow> 'a tensor \<Rightarrow> error + 'a tensor" where
  "LearnablePooling_forward att lp x =
     and_then (MultiheadAttention_forward att (attention lp) (pooling_weights lp) x x)
       (\<lambda>(out, w). squeeze_method (PyTuple [PyTensor out, PyTensor w]) (- 2))"

section \<open>Notions used by the properties\<close>

text \<open>Constructing a module and calling it at once; the shape of a result.\<close>

definition call1 :: "error + 'm \<Rightarrow> ('m \<Rightarrow> 'x \<Rightarrow> error + 'y) \<Rightarrow> 'x \<Rightarrow> error + 'y" where
  "call1 c f x = and_then c (\<lambda>m. f m x)"

definition call2 ::
  "error + 'm \<Rightarrow> ('m \<Rightarrow> 'x \<Rightarrow> 'w \<Rightarrow> error + 'y) \<Rightarrow> 'x \<Rightarrow> 'w \<Rightarrow> error + 'y" where
  "call2 c f x w = and_then c (\<lambda>m. f m x w)"

definition result_shape :: "error + 'a tensor \<Rightarrow> error + nat list" where
  "result_shape r = map_sum id shape r"

definition zero_store :: "'a::zero store" where
  "zero_store = (\<lambda>_. zero_params)"

text \<open>The quotient rounded up, \<open>ceil(a / b)\<close>, as the specification writes it.\<close>

definition ceil_div :: "nat \<Rightarrow> nat \<Rightarrow> nat" where
  "ceil_div a b = (a + b - 1) div b"

text \<open>
  A causal convolution as the constructor builds it with the padding mode \<^verbatim>\<open>zeros\<close>:
  positive sizes, the causal padding, and groups that divide the channels.
\<close>

definition causal_ok :: "'a CausalConv1d \<Rightarrow> bool" where
  "causal_ok cv =
    (1 \<le> kernel_size cv \<and> 1 \<le> stride cv \<and> 1 \<le> dilation cv \<and>
     0 \<le> in_channels cv \<and> 0 \<le> out_channels cv \<and>
     1 \<le> groups cv \<and> in_channels cv mod groups cv = 0 \<and> out_channels cv mod groups cv = 0 \<and>
     causal_padding cv = dilation cv * (kernel_size cv - 1) - (stride cv - 1) \<and>
     pad_mode cv = ''constant'')"

text \<open>
  Two tensors whose last axis is time agree on the first \<open>n\<close> time steps: they have the
  same other axes, at least \<open>n\<close> time steps each, and equal elements there.
\<close>

definition agree_upto :: "nat \<Rightarrow> 'a tensor \<Rightarrow> 'a tensor \<Rightarrow> bool" where
  "agree_upto n x y =
    (shape x \<noteq> [] \<and> shape y \<noteq> [] \<and> butlast (shape x) = butlast (shape y) \<and>
     n \<le> last (shape x) \<and> n \<le> last (shape y) \<and>
     (\<forall>idx. valid_index (butlast (shape x) @ [n]) idx \<longrightarrow> elem x idx = elem y idx))"

text \<open>Parameters with one value for every weight and one for every bias.\<close>

definition const_params :: "'a \<Rightarrow> 'a \<Rightarrow> 'a params" where
  "const_params w b = \<lparr>weight = (\<lambda>_. w), bias = (\<lambda>_. b)\<rparr>"

text \<open>
  A module maps the shapes of channel-major inputs: called on an input with the axes
  \<^verbatim>\<open>(channels, time)\<close> or \<^verbatim>\<open>(batch, channels, time)\<close>, \<open>cin\<close> channels and a number of time
  steps \<open>T\<close> that satisfies \<open>P\<close>, it returns an output with \<open>cout\<close> channels and \<open>g T\<close> time
  steps.
\<close>

definition shape_map ::
  "('a \<Rightarrow> 'a) \<Rightarrow> 'a::semiring_0 module \<Rightarrow> nat \<Rightarrow> nat \<Rightarrow> (nat \<Rightarrow> bool) \<Rightarrow> (nat \<Rightarrow> nat) \<Rightarrow> bool" where
  "shape_map elu m cin cout P g =
    (\<forall>x pre T. shape x = pre @ [cin, T] \<and> length pre \<le> 1 \<and> P T \<longrightarrow>
       (\<exists>y. forward elu m x = Inr y \<and> shape y = pre @ [cout, g T]))"

text \<open>
  A module is causal with the downsampling factor \<open>s\<close>: two inputs that agree on the
  first \<open>n\<close> time steps give outputs that agree on the first \<open>n div s\<close> time steps.
\<close>

definition causal_layer :: "('a \<Rightarrow> 'a) \<Rightarrow> 'a::semiring_0 module \<Rightarrow> nat \<Rightarrow> bool" where
  "causal_layer elu m s =
    (\<forall>n x y x' y'. agree_upto n x y \<and> forward elu m x = Inr x' \<and> forward elu m y = Inr y'
       \<longrightarrow> agree_upto (n div s) x' y')"

text \<open>
  A module raises on every channel-major input with \<open>cin\<close> channels whose number of time
  steps satisfies \<open>P\<close>.
\<close>

definition shape_fail ::
  "('a \<Rightarrow> 'a) \<Rightarrow> 'a::semiring_0 module \<Rightarrow> nat \<Rightarrow> (nat \<Rightarrow> bool) \<Rightarrow> bool" where
  "shape_fail elu m cin P =
    (\<forall>x pre T. shape x = pre @ [cin, T] \<and> length pre \<le> 1 \<and> P T \<longrightarrow> isl (forward elu m x))"

text \<open>
  A module downsamples by the factor \<open>s\<close>: on an input with at least \<open>s\<close> time steps it
  returns \<open>T div s\<close> time steps, on a shorter one it raises.
\<close>

definition downsamples ::
  "('a \<Rightarrow> 'a) \<Rightarrow> 'a::semiring_0 module \<Rightarrow> nat \<Rightarrow> nat \<Rightarrow> nat \<Rightarrow> bool" where
  "downsamples elu m cin cout s =
    (shape_map elu m cin cout (\<lambda>T. s \<le> T) (\<lambda>T. T div s) \<and>
     shape_fail elu m cin (\<lambda>T. T < s))"

text \<open>An attention function whose numbers are all 0, for evaluating calls.\<close>

definition zero_attention :: "'a::zero attention" where
  "zero_attention q k v = ((\<lambda>_. 0), (\<lambda>_. 0))"

text \<open>
  A parameter store with one value for every weight and one for every bias, and a tensor
  that is 0 on the first \<open>k\<close> positions of its last axis and 1 after them.
\<close>

definition const_store :: "'a \<Rightarrow> 'a \<Rightarrow> 'a store" where
  "const_store w b = (\<lambda>_. const_params w b)"

definition step_tensor :: "nat list \<Rightarrow> nat \<Rightarrow> 'a::zero_neq_one tensor" where
  "step_tensor sh k = \<lparr>shape = sh, elem = (\<lambda>idx. if last idx < k then 0 else 1)\<rparr>"

section \<open>Basic facts\<close>

lemma and_then_Inr [simp]: "and_then (Inr v) f = f v"
  by (simp add: and_then_def)

lemma and_then_Inl [simp]: "and_then (Inl e) f = Inl e"
  by (simp add: and_then_def)

lemma and_then_eq_Inr: "and_then r f = Inr y \<longleftrightarrow> (\<exists>v. r = Inr v \<and> f v = Inr y)"
  by (cases r) simp_all

lemma ConvNd_init_fields:
  assumes "ConvNd_init modes cin cout k s d kw th = Inr cv"
  shows "in_channels cv = cin \<and> out_channels cv = cout \<and> kernel_size cv = k \<and> stride cv = s
     \<and> dilation cv = d \<and> theta cv = th \<and> 1 \<le> groups cv \<and> cin mod groups cv = 0
     \<and> cout mod groups cv = 0 \<and> 0 \<le> cin \<and> 0 \<le> cout \<and> 0 \<le> k"
  using assms
  by (auto simp: ConvNd_init_def and_then_eq_Inr split: if_splits)

lemma ConvNd_init_no_kw:
  assumes "0 \<le> cin" "0 \<le> cout" "0 \<le> k" "''zeros'' \<in> set modes"
  shows "ConvNd_init modes cin cout k s d [] th =
     Inr \<lparr>in_channels = cin, out_channels = cout, kernel_size = k, stride = s,
          dilation = d, groups = 1, use_bias = True, theta = th\<rparr>"
  using assms
  by (simp add: ConvNd_init_def kw_known_def kw_int_def kw_str_def kw_bias_def)

lemma CausalConv1d_init_fields:
  assumes "CausalConv1d_init cin cout k s d pm kw th = Inr cv"
  shows "in_channels cv = cin \<and> out_channels cv = cout \<and> kernel_size cv = k \<and> stride cv = s
     \<and> dilation cv = d \<and> theta cv = th \<and> 1 \<le> groups cv \<and> cin mod groups cv = 0
     \<and> cout mod groups cv = 0 \<and> 0 \<le> cin \<and> 0 \<le> cout \<and> 0 \<le> k
     \<and> causal_padding cv = d * (k - 1) - (s - 1)
     \<and> pad_mode cv = (if pm = ''zeros'' then ''constant'' else pm)"
proof -
  from assms obtain c where c: "Conv1d_init cin cout k s d kw th = Inr c"
    and cv: "cv = ConvNd.extend c \<lparr>causal_padding = d * (k - 1) - (s - 1),
          pad_mode = (if pm = ''zeros'' then ''constant'' else pm)\<rparr>"
    by (auto simp: CausalConv1d_init_def and_then_eq_Inr split: if_splits)
  from c have "ConvNd_init [''zeros'', ''reflect'', ''replicate'', ''circular''] cin cout k s d kw th = Inr c"
    by (simp add: Conv1d_init_def)
  from ConvNd_init_fields[OF this] show ?thesis
    by (simp add: cv ConvNd.extend_def)
qed

lemma CausalConv1d_init_ok:
  assumes "CausalConv1d_init cin cout k s d ''zeros'' kw th = Inr cv" "1 \<le> k" "1 \<le> s" "1 \<le> d"
  shows "causal_ok cv"
  using CausalConv1d_init_fields[OF assms(1)] assms(2-)
  by (simp add: causal_ok_def)

lemma CausalConvTranspose1d_init_fields:
  assumes "CausalConvTranspose1d_init cin cout k s d kw th = Inr ct"
  shows "in_channels ct = cin \<and> out_channels ct = cout \<and> kernel_size ct = k \<and> stride ct = s
     \<and> dilation ct = d \<and> theta ct = th \<and> 1 \<le> groups ct \<and> cin mod groups ct = 0
     \<and> cout mod groups ct = 0 \<and> 0 \<le> cin \<and> 0 \<le> cout \<and> 0 \<le> k
     \<and> causal_trim ct = d * (k - 1) - (s - 1)"
proof -
  from assms obtain c where c: "ConvTranspose1d_init cin cout k s d kw th = Inr c"
    and ct: "ct = ConvNd.extend c \<lparr>causal_trim = d * (k - 1) - (s - 1)\<rparr>"
    by (auto simp: CausalConvTranspose1d_init_def and_then_eq_Inr split: if_splits)
  from c have "ConvNd_init [''zeros''] cin cout k s d kw th = Inr c"
    by (simp add: ConvTranspose1d_init_def)
  from ConvNd_init_fields[OF this] show ?thesis
    by (simp add: ct ConvNd.extend_def)
qed

lemma floor_shift: "1 \<le> s \<Longrightarrow> ((T::int) - s) div s + 1 = T div s"
  by (metis add.commute diff_add_cancel div_add_self1 not_one_le_zero)

lemma ceil_div_eq_div_iff: "0 < s \<Longrightarrow> ceil_div T s = T div s \<longleftrightarrow> s dvd T"
proof -
  assume s: "0 < s"
  have eq: "T + s - 1 = (T mod s + s - 1) + (T div s) * s"
    using s by (simp add: algebra_simps) 
  have "(T + s - 1) div s = (T mod s + s - 1) div s + T div s"
    unfolding eq using s by (simp only: div_mult_self1 div_mult_self2 div_mult_self3 div_mult_self4) 
  moreover have "(T mod s + s - 1) div s = (if T mod s = 0 then 0 else 1)"
  proof (cases "T mod s = 0")
    case True then show ?thesis using s by simp
  next
    case False
    then have "T mod s + s - 1 = (T mod s - 1) + s" by simp
    moreover have "T mod s - 1 < s" using s
      by (meson less_imp_diff_less mod_less_divisor)
    ultimately have "(T mod s + s - 1) div s = (T mod s - 1) div s + 1"
      using s by (simp only: div_add_self2) 
    then show ?thesis using False \<open>T mod s - 1 < s\<close> by simp
  qed
  ultimately show ?thesis
    by (auto simp: ceil_div_def dvd_eq_mod_eq_0)
qed

lemma F_pad_constant:
  assumes "shape x \<noteq> []" "0 \<le> int (last (shape x)) + p"
  shows "F_pad x p ''constant'' = Inr \<lparr>shape = butlast (shape x) @ [nat (int (last (shape x)) + p)],
                  elem = (\<lambda>idx. if int (last idx) < p then 0
                                 else elem x (butlast idx @ [nat (int (last idx) - p)]))\<rparr>"
  using assms by (simp add: F_pad_def Let_def)

lemma CausalConv1d_forward_shape:
  fixes cv :: "'a::semiring_0 CausalConv1d"
  assumes ok: "causal_ok cv"
    and sh: "shape x = pre @ [C, T]" and pre: "length pre \<le> 1"
    and ch: "int C = in_channels cv" and len: "stride cv \<le> int T"
  shows "\<exists>y. CausalConv1d_forward cv x = Inr y \<and>
             shape y = pre @ [nat (out_channels cv), T div nat (stride cv)]"
proof -
  let ?k = "kernel_size cv" and ?s = "stride cv" and ?d = "dilation cv"
  let ?p = "?d * (?k - 1) - (?s - 1)"
  from ok have k: "1 \<le> ?k" and s: "1 \<le> ?s" and d: "1 \<le> ?d"
    and p: "causal_padding cv = ?p" and m: "pad_mode cv = ''constant''"
    by (simp_all add: causal_ok_def)
  have dk: "0 \<le> ?d * (?k - 1)" using k d by simp
  have nonneg: "0 \<le> int (last (shape x)) + ?p" using sh len dk by simp
  define xp where "xp = \<lparr>shape = butlast (shape x) @ [nat (int (last (shape x)) + ?p)],
       elem = (\<lambda>idx. if int (last idx) < ?p then 0
                      else elem x (butlast idx @ [nat (int (last idx) - ?p)]))\<rparr>"
  have pad: "F_pad x (causal_padding cv) (pad_mode cv) = Inr xp"
    unfolding p m xp_def using sh nonneg by (intro F_pad_constant) simp_all
  have shp: "shape xp = pre @ [C, nat (int T + ?p)]"
    by (simp add: xp_def sh butlast_append)
  have r: "length (shape xp) = 2 \<or> length (shape xp) = 3"
    using pre by (cases pre) (simp_all add: shp)
  have c2: "shape xp ! (length (shape xp) - 2) = C"
    by (simp add: shp nth_append)
  have t1: "shape xp ! (length (shape xp) - 1) = nat (int T + ?p)"
    by (simp add: shp nth_append)
  have tk: "take (length (shape xp) - 2) (shape xp) = pre"
    by (simp add: shp)
  have fit: "\<not> int (nat (int T + ?p)) < ?d * (?k - 1) + 1"
    using len dk by simp
  have "(int (nat (int T + ?p)) - ?d * (?k - 1) - 1) div ?s + 1 = (int T - ?s) div ?s + 1"
    using len dk by (simp add: algebra_simps)
  also have "\<dots> = int T div ?s" using s by (rule floor_shift)
  finally have L: "nat ((int (nat (int T + ?p)) - ?d * (?k - 1) - 1) div ?s + 1) = T div nat ?s"
    using s by (simp add: nat_div_distrib)
  have "\<exists>y. Conv1d_forward cv xp = Inr y \<and>
             shape y = pre @ [nat (out_channels cv), T div nat ?s]"
    using r c2 t1 tk fit L k s d ch
    by (auto simp: Conv1d_forward_def Let_def)
  then show ?thesis by (simp add: CausalConv1d_forward_def pad)
qed

lemma CausalConv1d_forward_short:
  fixes cv :: "'a::semiring_0 CausalConv1d"
  assumes ok: "causal_ok cv"
    and sh: "shape x = pre @ [C, T]" and len: "int T < stride cv"
  shows "isl (CausalConv1d_forward cv x)"
proof -
  let ?k = "kernel_size cv" and ?s = "stride cv" and ?d = "dilation cv"
  let ?p = "?d * (?k - 1) - (?s - 1)"
  from ok have k: "1 \<le> ?k" and s: "1 \<le> ?s" and d: "1 \<le> ?d"
    and p: "causal_padding cv = ?p" and m: "pad_mode cv = ''constant''"
    by (simp_all add: causal_ok_def)
  show ?thesis
  proof (cases "int T + ?p < 0")
    case True
    then show ?thesis using sh by (simp add: CausalConv1d_forward_def F_pad_def p m Let_def)
  next
    case False
    then have nonneg: "0 \<le> int (last (shape x)) + ?p" using sh by simp
    have pad: "F_pad x ?p ''constant'' = Inr \<lparr>shape = butlast (shape x) @ [nat (int (last (shape x)) + ?p)],
       elem = (\<lambda>idx. if int (last idx) < ?p then 0
                      else elem x (butlast idx @ [nat (int (last idx) - ?p)]))\<rparr>"
      using sh nonneg by (intro F_pad_constant) simp_all
    have "int (nat (int T + ?p)) < ?d * (?k - 1) + 1" using False len by simp
    then show ?thesis
      by (simp add: CausalConv1d_forward_def p m pad Conv1d_forward_def Let_def sh butlast_append nth_append)
  qed
qed

section \<open>Output lengths of the causal convolutions\<close>

lemma slice_stop_neg: "stop < 0 \<Longrightarrow> slice_stop len stop = nat (int len + stop)"
  by (simp add: slice_stop_def max_def)

lemma CausalConvTranspose1d_forward_shape:
  fixes ct :: "'a::semiring_0 CausalConvTranspose1d"
  assumes k: "1 \<le> kernel_size ct" and s: "1 \<le> stride ct" and d: "1 \<le> dilation ct"
    and sh: "shape x = pre @ [C, T]" and pre: "length pre \<le> 1"
    and ch: "int C = in_channels ct" and len: "1 \<le> T"
  shows "\<exists>y. CausalConvTranspose1d_forward ct x = Inr y \<and>
     shape y = pre @ [nat (out_channels ct),
        slice_stop (nat ((int T - 1) * stride ct + dilation ct * (kernel_size ct - 1) + 1))
                   (- causal_trim ct)]"
proof -
  have r: "length (shape x) = 2 \<or> length (shape x) = 3"
    using pre by (cases pre) (simp_all add: sh)
  have c2: "shape x ! (length (shape x) - 2) = C" by (simp add: sh nth_append)
  have t1: "shape x ! (length (shape x) - 1) = T" by (simp add: sh nth_append)
  have tk: "take (length (shape x) - 2) (shape x) = pre" by (simp add: sh)
  obtain out where out: "ConvTranspose1d_forward ct x = Inr out"
    and so: "shape out = pre @ [nat (out_channels ct),
        nat ((int T - 1) * stride ct + dilation ct * (kernel_size ct - 1) + 1)]"
    using r c2 t1 tk k s d ch len by (auto simp: ConvTranspose1d_forward_def Let_def)
  show ?thesis
    by (simp add: CausalConvTranspose1d_forward_def out slice_last_upto_def so butlast_append)
qed

text \<open>
  Claim C2, as the code has it. A \<^verbatim>\<open>CausalConv1d\<close> built with the padding mode
  \<^verbatim>\<open>zeros\<close> and positive kernel size, stride and dilation, called on an input with \<open>T\<close>
  time steps: when \<open>T\<close> is at least the stride, the call returns and the output has
  \<open>floor((T + p - dilation * (kernel_size - 1) - 1) / stride) + 1\<close> time steps, which is
  \<open>floor(T / stride)\<close>; this is \<open>ceil(T / stride)\<close> exactly when the stride divides \<open>T\<close>.
  When \<open>T\<close> is smaller than the stride the call raises.
\<close>

theorem CausalConv1d_output_length:
  fixes cv :: "'a::semiring_0 CausalConv1d"
  assumes init: "CausalConv1d_init cin cout k s d ''zeros'' kw th = Inr cv"
    and k: "1 \<le> k" and s: "1 \<le> s" and d: "1 \<le> d"
    and sh: "shape x = pre @ [nat cin, T]" and pre: "length pre \<le> 1"
  shows "if s \<le> int T
         then \<exists>y. CausalConv1d_forward cv x = Inr y \<and>
                  shape y = pre @ [nat cout, T div nat s] \<and>
                  int (T div nat s) = (int T + (d * (k - 1) - (s - 1)) - d * (k - 1) - 1) div s + 1 \<and>
                  (T div nat s = ceil_div T (nat s) \<longleftrightarrow> nat s dvd T)
         else isl (CausalConv1d_forward cv x)"
proof -
  note f = CausalConv1d_init_fields[OF init]
  have ok: "causal_ok cv" using init k s d by (rule CausalConv1d_init_ok)
  have ch: "int (nat cin) = in_channels cv" using f by simp
  show ?thesis
  proof (cases "s \<le> int T")
    case True
    then have "stride cv \<le> int T" using f by simp
    from CausalConv1d_forward_shape[OF ok sh pre ch this]
    obtain y where y: "CausalConv1d_forward cv x = Inr y"
      and sy: "shape y = pre @ [nat cout, T div nat s]" using f by auto
    have "(int T + (d * (k - 1) - (s - 1)) - d * (k - 1) - 1) div s + 1 = (int T - s) div s + 1"
      by (simp add: algebra_simps)
    also have "\<dots> = int T div s" using s by (rule floor_shift)
    also have "\<dots> = int (T div nat s)" using s by (simp add: zdiv_int)
    finally have L: "int (T div nat s) = (int T + (d * (k - 1) - (s - 1)) - d * (k - 1) - 1) div s + 1"
      by simp
    have "0 < nat s" using s by simp
    from ceil_div_eq_div_iff[OF this, of T]
    have c: "T div nat s = ceil_div T (nat s) \<longleftrightarrow> nat s dvd T" by auto
    show ?thesis using True y sy L c by simp
  next
    case False
    then have "int T < stride cv" using f by simp
    from CausalConv1d_forward_short[OF ok sh this] False show ?thesis by simp
  qed
qed

theorem CausalConv1d_output_length_witness:
  "\<exists>y. CausalConv1d_forward (projr (CausalConv1d_init 1 1 4 2 1 ''zeros'' [] zero_params))
          (zeros [1, 6] :: int tensor) = Inr y \<and> shape y = [1, 3]"
proof -
  have init: "CausalConv1d_init 1 1 4 2 1 ''zeros'' [] (zero_params :: int params)
      = Inr (projr (CausalConv1d_init 1 1 4 2 1 ''zeros'' [] zero_params))"
    by (simp add: CausalConv1d_init_def Conv1d_init_def ConvNd_init_def kw_in_def kw_known_def
        kw_int_def kw_str_def)
  have sh: "shape (zeros [1, 6] :: int tensor) = [] @ [nat 1, 6]" by (simp add: zeros_def)
  from CausalConv1d_output_length[OF init _ _ _ sh]
  show ?thesis by auto
qed

text \<open>
  With kernel size 4, stride 2 and 5 time steps the output has 2 time steps, not
  \<open>ceil(5 / 2) = 3\<close>.
\<close>

theorem CausalConv1d_ceil_counterexample:
  "result_shape (call1 (CausalConv1d_init 1 1 4 2 1 ''zeros'' [] zero_params)
       CausalConv1d_forward (zeros [1, 5] :: int tensor)) = Inr [1, 2] \<and> ceil_div 5 2 = 3"
  by (simp add: result_shape_def call1_def CausalConv1d_init_def Conv1d_init_def ConvNd_init_def
      kw_in_def kw_known_def kw_int_def kw_str_def kw_bias_def ConvNd.extend_def
      CausalConv1d_forward_def F_pad_def zeros_def Conv1d_forward_def ceil_div_def Let_def)

text \<open>
  Claim C5, as the code has it. A \<^verbatim>\<open>CausalConvTranspose1d\<close> with positive kernel size,
  stride and dilation and a positive \<^verbatim>\<open>causal_trim\<close>, called on an input with \<open>T \<ge> 1\<close> time
  steps, returns an output with
  \<open>(T - 1) * stride + dilation * (kernel_size - 1) + 1 - causal_trim = T * stride\<close> time
  steps; with dilation 1 this is \<open>(T - 1) * stride + kernel_size - causal_trim\<close>.
\<close>

theorem CausalConvTranspose1d_output_length:
  fixes ct :: "'a::semiring_0 CausalConvTranspose1d"
  assumes init: "CausalConvTranspose1d_init cin cout k s d kw th = Inr ct"
    and k: "1 \<le> k" and s: "1 \<le> s" and d: "1 \<le> d"
    and trim: "0 < d * (k - 1) - (s - 1)"
    and sh: "shape x = pre @ [nat cin, T]" and pre: "length pre \<le> 1" and len: "1 \<le> T"
  shows "\<exists>y. CausalConvTranspose1d_forward ct x = Inr y \<and>
     shape y = pre @ [nat cout, T * nat s] \<and>
     int (T * nat s) = (int T - 1) * s + d * (k - 1) + 1 - causal_trim ct \<and>
     (d = 1 \<longrightarrow> int (T * nat s) = (int T - 1) * s + k - causal_trim ct)"
proof -
  note f = CausalConvTranspose1d_init_fields[OF init]
  have k': "1 \<le> kernel_size ct" and s': "1 \<le> stride ct" and d': "1 \<le> dilation ct"
    using f k s d by simp_all
  have ch: "int (nat cin) = in_channels ct" using f by simp
  from CausalConvTranspose1d_forward_shape[OF k' s' d' sh pre ch len]
  obtain y where y: "CausalConvTranspose1d_forward ct x = Inr y"
    and sy: "shape y = pre @ [nat cout,
        slice_stop (nat ((int T - 1) * s + d * (k - 1) + 1)) (- (d * (k - 1) - (s - 1)))]"
    using f by auto
  have full: "0 \<le> (int T - 1) * s + d * (k - 1) + 1" using len s d k by simp
  have "slice_stop (nat ((int T - 1) * s + d * (k - 1) + 1)) (- (d * (k - 1) - (s - 1)))
      = nat (int (nat ((int T - 1) * s + d * (k - 1) + 1)) + - (d * (k - 1) - (s - 1)))"
    using trim by (intro slice_stop_neg) simp
  also have "\<dots> = nat (int T * s)" using full by (simp add: algebra_simps)
  also have "\<dots> = T * nat s" using s by (simp add: nat_mult_distrib)
  finally have st: "slice_stop (nat ((int T - 1) * s + d * (k - 1) + 1)) (- (d * (k - 1) - (s - 1)))
      = T * nat s" .
  have e: "int (T * nat s) = (int T - 1) * s + d * (k - 1) + 1 - causal_trim ct"
    using f s by (simp add: algebra_simps)
  show ?thesis using y sy st e by auto
qed

theorem CausalConvTranspose1d_output_length_witness:
  "\<exists>y. CausalConvTranspose1d_forward
          (projr (CausalConvTranspose1d_init 1 1 4 2 1 [] zero_params))
          (zeros [1, 3] :: int tensor) = Inr y \<and> shape y = [1, 6]"
proof -
  have init: "CausalConvTranspose1d_init 1 1 4 2 1 [] (zero_params :: int params)
      = Inr (projr (CausalConvTranspose1d_init 1 1 4 2 1 [] zero_params))"
    by (simp add: CausalConvTranspose1d_init_def ConvTranspose1d_init_def ConvNd_init_def
        kw_in_def kw_known_def kw_int_def kw_str_def)
  have sh: "shape (zeros [1, 3] :: int tensor) = [] @ [nat 1, 3]" by (simp add: zeros_def)
  from CausalConvTranspose1d_output_length[OF init _ _ _ _ sh]
  show ?thesis by auto
qed

text \<open>
  With kernel size 2, stride 1, dilation 2 and 3 time steps the output has 3 time steps,
  where the formula \<open>(T - 1) * stride + kernel_size - causal_trim\<close> gives 2.
\<close>

theorem CausalConvTranspose1d_dilation_counterexample:
  "result_shape (call1 (CausalConvTranspose1d_init 1 1 2 1 2 [] zero_params)
       CausalConvTranspose1d_forward (zeros [1, 3] :: int tensor)) = Inr [1, 3] \<and>
   (3 - 1) * 1 + 2 - (2 * (2 - 1) - (1 - 1)) = (2 :: int)"
  by (simp add: result_shape_def call1_def CausalConvTranspose1d_init_def ConvTranspose1d_init_def
      ConvNd_init_def kw_in_def kw_known_def kw_int_def kw_str_def kw_bias_def ConvNd.extend_def
      CausalConvTranspose1d_forward_def zeros_def ConvTranspose1d_forward_def slice_last_upto_def
      slice_stop_def Let_def)

text \<open>
  Claim C10. When \<^verbatim>\<open>causal_trim\<close> is 0, the slice \<^verbatim>\<open>out[..., :-0]\<close> is \<^verbatim>\<open>out[..., :0]\<close>:
  for every input with at least one time step the call returns a tensor whose time axis
  has length 0.
\<close>

theorem CausalConvTranspose1d_zero_trim_empty:
  fixes ct :: "'a::semiring_0 CausalConvTranspose1d"
  assumes init: "CausalConvTranspose1d_init cin cout k s d kw th = Inr ct"
    and k: "1 \<le> k" and s: "1 \<le> s" and d: "1 \<le> d"
    and trim: "d * (k - 1) - (s - 1) = 0"
    and sh: "shape x = pre @ [nat cin, T]" and pre: "length pre \<le> 1" and len: "1 \<le> T"
  shows "causal_trim ct = 0 \<and>
     (\<exists>y. CausalConvTranspose1d_forward ct x = Inr y \<and> shape y = pre @ [nat cout, 0])"
proof -
  note f = CausalConvTranspose1d_init_fields[OF init]
  have k': "1 \<le> kernel_size ct" and s': "1 \<le> stride ct" and d': "1 \<le> dilation ct"
    using f k s d by simp_all
  have ch: "int (nat cin) = in_channels ct" using f by simp
  have z: "causal_trim ct = 0" using f trim by simp
  from CausalConvTranspose1d_forward_shape[OF k' s' d' sh pre ch len]
  show ?thesis using f z by (auto simp: slice_stop_def)
qed

theorem CausalConvTranspose1d_zero_trim_empty_witness:
  "\<exists>y. CausalConvTranspose1d_forward
          (projr (CausalConvTranspose1d_init 1 1 1 1 1 [] zero_params))
          (zeros [1, 3] :: int tensor) = Inr y \<and> shape y = [1, 0]"
proof -
  have init: "CausalConvTranspose1d_init 1 1 1 1 1 [] (zero_params :: int params)
      = Inr (projr (CausalConvTranspose1d_init 1 1 1 1 1 [] zero_params))"
    by (simp add: CausalConvTranspose1d_init_def ConvTranspose1d_init_def ConvNd_init_def
        kw_in_def kw_known_def kw_int_def kw_str_def)
  have sh: "shape (zeros [1, 3] :: int tensor) = [] @ [nat 1, 3]" by (simp add: zeros_def)
  from CausalConvTranspose1d_zero_trim_empty[OF init _ _ _ _ sh]
  show ?thesis by auto
qed

section \<open>Configuration errors\<close>

lemma F_pad_unknown_mode:
  "mode \<notin> set [''constant'', ''reflect'', ''replicate'', ''circular''] \<Longrightarrow>
   F_pad x p mode = Inl NotImplementedError"
  by (simp add: F_pad_def Let_def)

lemma CausalConv1d_init_mode_independent:
  "isl (CausalConv1d_init cin cout k s d pm kw th :: error + 'a CausalConv1d) =
   isl (CausalConv1d_init cin cout k s d pm' kw th :: error + 'a CausalConv1d)"
  by (cases "Conv1d_init cin cout k s d kw th :: error + 'a ConvNd")
     (simp_all add: CausalConv1d_init_def)

text \<open>
  Claim C7, as the code has it. An explicit \<^verbatim>\<open>padding\<close> keyword makes the constructor of
  \<^verbatim>\<open>CausalConv1d\<close> fail its assertion, and an \<^verbatim>\<open>output_padding\<close> keyword is refused by
  the framework constructor it is passed to; either keyword makes the constructor of
  \<^verbatim>\<open>CausalConvTranspose1d\<close> fail an assertion. The padding mode of \<^verbatim>\<open>CausalConv1d\<close> is not
  looked at during construction: whether the constructor raises does not depend on it,
  and a module built with a mode that \<^verbatim>\<open>F.pad\<close> does not know raises at every call of
  \<^verbatim>\<open>forward\<close>.
\<close>

theorem configuration_errors:
  fixes cv :: "'a::semiring_0 CausalConv1d"
  shows "(kw_in ''padding'' kw \<longrightarrow>
            (CausalConv1d_init cin cout k s d pm kw th :: error + 'a CausalConv1d)
              = Inl AssertionError) \<and>
         (kw_in ''output_padding'' kw \<longrightarrow>
            isl (CausalConv1d_init cin cout k s d pm kw th :: error + 'a CausalConv1d)) \<and>
         (kw_in ''padding'' kw \<or> kw_in ''output_padding'' kw \<longrightarrow>
            (CausalConvTranspose1d_init cin cout k s d kw th :: error + 'a CausalConvTranspose1d)
              = Inl AssertionError) \<and>
         (isl (CausalConv1d_init cin cout k s d pm kw th :: error + 'a CausalConv1d) =
          isl (CausalConv1d_init cin cout k s d ''zeros'' kw th :: error + 'a CausalConv1d)) \<and>
         (CausalConv1d_init cin cout k s d pm kw th = Inr cv \<and>
          pm \<notin> set [''zeros'', ''constant'', ''reflect'', ''replicate'', ''circular'']
            \<longrightarrow> CausalConv1d_forward cv x = Inl NotImplementedError)"
proof (intro conjI impI)
  assume "kw_in ''padding'' kw"
  then show "(CausalConv1d_init cin cout k s d pm kw th :: error + 'a CausalConv1d)
      = Inl AssertionError"
    by (simp add: CausalConv1d_init_def)
next
  assume op: "kw_in ''output_padding'' kw"
  then have "\<not> kw_known [''groups'', ''bias'', ''padding_mode'', ''device'', ''dtype''] kw"
    by (force simp: kw_in_def kw_known_def list_all_iff)
  then have "(Conv1d_init cin cout k s d kw th :: error + 'a ConvNd) = Inl TypeError"
    by (simp add: Conv1d_init_def ConvNd_init_def)
  then show "isl (CausalConv1d_init cin cout k s d pm kw th :: error + 'a CausalConv1d)"
    by (simp add: CausalConv1d_init_def)
next
  assume "kw_in ''padding'' kw \<or> kw_in ''output_padding'' kw"
  then show "(CausalConvTranspose1d_init cin cout k s d kw th :: error + 'a CausalConvTranspose1d)
      = Inl AssertionError"
    by (auto simp: CausalConvTranspose1d_init_def)
next
  show "isl (CausalConv1d_init cin cout k s d pm kw th :: error + 'a CausalConv1d) =
        isl (CausalConv1d_init cin cout k s d ''zeros'' kw th :: error + 'a CausalConv1d)"
    by (rule CausalConv1d_init_mode_independent)
next
  assume a: "CausalConv1d_init cin cout k s d pm kw th = Inr cv \<and>
          pm \<notin> set [''zeros'', ''constant'', ''reflect'', ''replicate'', ''circular'']"
  then have "pad_mode cv = pm" using CausalConv1d_init_fields[of cin cout k s d pm kw th cv]
    by auto
  with a have "F_pad x (causal_padding cv) (pad_mode cv) = Inl NotImplementedError"
    by (intro F_pad_unknown_mode) auto
  then show "CausalConv1d_forward cv x = Inl NotImplementedError"
    by (simp add: CausalConv1d_forward_def)
qed

theorem configuration_errors_witness:
  "(CausalConv1d_init 1 1 3 1 1 ''zeros'' [(''padding'', PyInt 1)] zero_params
      :: error + int CausalConv1d) = Inl AssertionError \<and>
   (CausalConvTranspose1d_init 1 1 4 2 1 [(''output_padding'', PyInt 1)] zero_params
      :: error + int CausalConvTranspose1d) = Inl AssertionError \<and>
   CausalConv1d_forward (projr (CausalConv1d_init 1 1 3 1 1 ''mirror'' [] zero_params))
      (zeros [1, 8] :: int tensor) = Inl NotImplementedError"
proof -
  have init: "CausalConv1d_init 1 1 3 1 1 ''mirror'' [] (zero_params :: int params)
      = Inr (projr (CausalConv1d_init 1 1 3 1 1 ''mirror'' [] zero_params))"
    by (simp add: CausalConv1d_init_def Conv1d_init_def ConvNd_init_def
        kw_in_def kw_known_def kw_int_def kw_str_def)
  have p: "kw_in ''padding'' [(''padding'', PyInt 1)]" by (simp add: kw_in_def)
  have q: "kw_in ''output_padding'' [(''output_padding'', PyInt 1)]" by (simp add: kw_in_def)
  have m: "''mirror'' \<notin> set [''zeros'', ''constant'', ''reflect'', ''replicate'', ''circular'']"
    by simp
  show ?thesis
    using configuration_errors[where 'a = int, of "[(''padding'', PyInt 1)]" 1 1 3 1 1 "''zeros''" zero_params]
      configuration_errors[where 'a = int, of "[(''output_padding'', PyInt 1)]" 1 1 4 2 1 "''zeros''" zero_params]
      configuration_errors[where 'a = int, of "[]" 1 1 3 1 1 "''mirror''" zero_params
         "projr (CausalConv1d_init 1 1 3 1 1 ''mirror'' [] zero_params)" "zeros [1, 8]"]
      init p q m
    by simp
qed

text \<open>
  The constructor accepts a padding mode that no function of the framework knows.
\<close>

theorem padding_mode_counterexample:
  "\<not> isl (CausalConv1d_init 1 1 3 1 1 ''mirror'' [] zero_params :: error + int CausalConv1d)"
  by (simp add: CausalConv1d_init_def Conv1d_init_def ConvNd_init_def
        kw_in_def kw_known_def kw_int_def kw_str_def)

section \<open>Broadcasting\<close>

lemma broadcast_rev_same: "broadcast_rev xs xs = Some xs"
  by (induction xs) simp_all

lemma broadcast_shapes_same: "broadcast_shapes sh sh = Some sh"
  by (simp add: broadcast_shapes_def broadcast_rev_same)

lemma broadcast_shapes_last1: "broadcast_shapes (sh @ [T]) (sh @ [1]) = Some (sh @ [T])"
  by (simp add: broadcast_shapes_def broadcast_rev_same)

lemma map2_valid_id:
  fixes idx sh :: "nat list"
  shows "list_all2 (<) idx sh \<Longrightarrow> map2 (\<lambda>d i. if d = 1 then 0 else i) sh idx = idx"
  by (induction idx sh rule: list_all2_induct) simp_all

lemma valid_index_length: "valid_index sh idx \<Longrightarrow> length idx = length sh"
  by (simp add: valid_index_def list_all2_lengthD)

lemma broadcast_index_valid:
  assumes "valid_index sh idx"
  shows "broadcast_index sh idx = idx"
proof -
  have "drop (length idx - length sh) idx = idx"
    using valid_index_length[OF assms] by simp
  then show ?thesis
    unfolding broadcast_index_def using map2_valid_id[of idx sh] assms
    by (simp add: valid_index_def)
qed

lemma list_all2_snoc_snoc:
  "list_all2 P (xs @ [x]) (ys @ [y]) \<longleftrightarrow> list_all2 P xs ys \<and> P x y"
proof -
  have "list_all2 P (xs @ [x]) (ys @ [y]) = list_all2 P (rev (xs @ [x])) (rev (ys @ [y]))"
    by (simp only: list_all2_rev)
  also have "\<dots> = (P x y \<and> list_all2 P (rev xs) (rev ys))" by simp
  finally show ?thesis by (auto simp: list_all2_rev)
qed

lemma valid_index_snoc_snoc [simp]:
  "valid_index (sh @ [T]) (i @ [t]) \<longleftrightarrow> valid_index sh i \<and> t < T"
  by (simp add: valid_index_def list_all2_snoc_snoc)

lemma valid_index_Nil [simp]: "valid_index [] idx \<longleftrightarrow> idx = []"
  by (simp add: valid_index_def)

lemma valid_index_snoc:
  "valid_index (sh @ [T]) idx \<longleftrightarrow>
     idx \<noteq> [] \<and> valid_index sh (butlast idx) \<and> last idx < T"
proof (cases idx rule: rev_cases)
  case Nil
  then show ?thesis by (simp add: valid_index_def)
next
  case (snoc i t)
  then show ?thesis by simp
qed

lemma broadcast_index_last1:
  assumes "valid_index (sh @ [T]) idx"
  shows "broadcast_index (sh @ [1]) idx = butlast idx @ [0]"
proof -
  from assms obtain i t where idx: "idx = i @ [t]" and v: "valid_index sh i"
    by (cases idx rule: rev_cases) (auto simp: valid_index_snoc)
  have len: "length i = length sh" using v by (rule valid_index_length)
  have "map2 (\<lambda>d i. if d = 1 then 0 else i) sh i = i"
    using v by (simp only: valid_index_def map2_valid_id)
  then show ?thesis
    unfolding broadcast_index_def idx using len by simp
qed

lemma tensor_binop_same_shape:
  assumes "shape a = shape b"
  shows "\<exists>y. tensor_binop f a b = Inr y \<and> shape y = shape a \<and>
     (\<forall>idx. valid_index (shape a) idx \<longrightarrow> elem y idx = f (elem a idx) (elem b idx))"
  using assms
  by (simp add: tensor_binop_def broadcast_shapes_same broadcast_index_valid)

lemma tensor_add_same_shape:
  assumes "shape a = shape b"
  shows "\<exists>y. tensor_add a b = Inr y \<and> shape y = shape a \<and>
     (\<forall>idx. valid_index (shape a) idx \<longrightarrow> elem y idx = elem a idx + elem b idx)"
  unfolding tensor_add_def using assms by (rule tensor_binop_same_shape)

lemma tensor_binop_last1:
  assumes "shape a = sh @ [T]" "shape b = sh @ [1]"
  shows "\<exists>y. tensor_binop f a b = Inr y \<and> shape y = sh @ [T] \<and>
     (\<forall>idx. valid_index (sh @ [T]) idx \<longrightarrow>
         elem y idx = f (elem a idx) (elem b (butlast idx @ [0])))"
proof -
  have bs: "broadcast_shapes (shape a) (shape b) = Some (sh @ [T])"
    unfolding assms by (rule broadcast_shapes_last1)
  have ba: "\<And>idx. valid_index (sh @ [T]) idx \<Longrightarrow> broadcast_index (shape a) idx = idx"
    unfolding assms by (rule broadcast_index_valid)
  have bb: "\<And>idx. valid_index (sh @ [T]) idx \<Longrightarrow> broadcast_index (shape b) idx = butlast idx @ [0]"
    unfolding assms by (rule broadcast_index_last1)
  show ?thesis by (simp add: tensor_binop_def bs ba bb)
qed

section \<open>Construction of the modules\<close>

lemma sequence_Nil_Inr [simp]: "sequence [] = Inr ms \<longleftrightarrow> ms = []"
  by auto

lemma sequence_Cons_Inr [simp]:
  "sequence (r # rs) = Inr ms \<longleftrightarrow> (\<exists>v vs. r = Inr v \<and> sequence rs = Inr vs \<and> ms = v # vs)"
  by (auto split: sum.splits)

lemma map_sum_id_Inr [simp]: "map_sum id f r = Inr m \<longleftrightarrow> (\<exists>v. r = Inr v \<and> m = f v)"
  by (cases r) auto

lemma CausalConv1d_init_succeeds:
  assumes "0 \<le> cin" "0 \<le> cout" "0 \<le> k"
  shows "\<exists>cv. CausalConv1d_init cin cout k s d pm [] th = Inr cv"
  using assms
  by (simp add: CausalConv1d_init_def Conv1d_init_def ConvNd_init_no_kw kw_in_def)

lemma CausalConvTranspose1d_init_succeeds:
  assumes "0 \<le> cin" "0 \<le> cout" "0 \<le> k"
  shows "\<exists>ct. CausalConvTranspose1d_init cin cout k s d [] th = Inr ct"
  using assms
  by (simp add: CausalConvTranspose1d_init_def ConvTranspose1d_init_def ConvNd_init_no_kw kw_in_def)

lemma CausalConv1d_call_dilation:
  "CausalConv1d_call cin cout k [(''dilation'', PyInt d)] th =
   CausalConv1d_init cin cout k 1 d ''zeros'' [] th"
  by (simp add: CausalConv1d_call_def kw_in_def kw_int_def kw_str_def)

lemma CausalConv1d_call_plain:
  "CausalConv1d_call cin cout k [] th = CausalConv1d_init cin cout k 1 1 ''zeros'' [] th"
  by (simp add: CausalConv1d_call_def kw_in_def kw_int_def kw_str_def)

lemma ResidualUnit_Inr:
  assumes "ResidualUnit c d k [] st = Inr m"
  shows "\<exists>c1 c2. m = Residual (Sequential [MCausalConv1d c1, MELU, MCausalConv1d c2, MELU]) \<and>
     CausalConv1d_init c c k 1 d ''zeros'' [] (st [0]) = Inr c1 \<and>
     CausalConv1d_init c c 1 1 1 ''zeros'' [] (st [2]) = Inr c2"
  using assms
  by (auto simp: ResidualUnit_def and_then_eq_Inr CausalConv1d_call_dilation CausalConv1d_call_plain
      simp del: sequence.simps)

lemma ResidualUnit_succeeds:
  assumes "0 \<le> c" "0 \<le> k"
  shows "\<exists>m. ResidualUnit c d k [] st = Inr m"
proof -
  obtain c1 where c1: "CausalConv1d_init c c k 1 d ''zeros'' [] (st [0]) = Inr c1"
    using CausalConv1d_init_succeeds[OF assms(1) assms(1) assms(2)] by blast
  obtain c2 where c2: "CausalConv1d_init c c 1 1 1 ''zeros'' [] (st [2]) = Inr c2"
    using CausalConv1d_init_succeeds[OF assms(1) assms(1), of 1] by fastforce
  show ?thesis
    by (simp add: ResidualUnit_def CausalConv1d_call_dilation CausalConv1d_call_plain c1 c2)
qed

section \<open>Shapes through the modules\<close>

lemma Sequential_forward_append:
  "Sequential_forward elu (ms @ ns) x =
     (case Sequential_forward elu ms x of Inl e \<Rightarrow> Inl e | Inr y \<Rightarrow> Sequential_forward elu ns y)"
  by (induction ms arbitrary: x) (auto split: sum.splits)

lemma shape_map_weaken:
  assumes "shape_map elu m cin cout P g" "\<And>T. P' T \<Longrightarrow> P T \<and> g' T = g T"
  shows "shape_map elu m cin cout P' g'"
  using assms unfolding shape_map_def by metis

lemma shape_map_Nil: "shape_map elu (Sequential []) c c (\<lambda>_. True) (\<lambda>T. T)"
  by (simp add: shape_map_def)

lemma shape_map_Cons:
  assumes m: "shape_map elu m c0 c1 P1 g1"
    and ms: "shape_map elu (Sequential ms) c1 c2 P2 g2"
  shows "shape_map elu (Sequential (m # ms)) c0 c2 (\<lambda>T. P1 T \<and> P2 (g1 T)) (\<lambda>T. g2 (g1 T))"
  unfolding shape_map_def
proof (intro allI impI)
  fix x :: "'a tensor" and pre T
  assume a: "shape x = pre @ [c0, T] \<and> length pre \<le> 1 \<and> P1 T \<and> P2 (g1 T)"
  with m obtain y where y: "forward elu m x = Inr y" and sy: "shape y = pre @ [c1, g1 T]"
    unfolding shape_map_def by blast
  from ms sy a obtain z where "forward elu (Sequential ms) y = Inr z"
    and "shape z = pre @ [c2, g2 (g1 T)]"
    unfolding shape_map_def by blast
  then show "\<exists>z. forward elu (Sequential (m # ms)) x = Inr z \<and> shape z = pre @ [c2, g2 (g1 T)]"
    using y by simp
qed

lemma shape_map_ELU: "shape_map elu MELU c c (\<lambda>_. True) (\<lambda>T. T)"
  by (simp add: shape_map_def tensor_map_def)

lemma shape_map_conv:
  assumes "causal_ok cv"
  shows "shape_map elu (MCausalConv1d cv) (nat (in_channels cv)) (nat (out_channels cv))
           (\<lambda>T. nat (stride cv) \<le> T) (\<lambda>T. T div nat (stride cv))"
  unfolding shape_map_def
proof (intro allI impI)
  fix x :: "'a tensor" and pre T
  assume a: "shape x = pre @ [nat (in_channels cv), T] \<and> length pre \<le> 1 \<and> nat (stride cv) \<le> T"
  have ch: "int (nat (in_channels cv)) = in_channels cv"
    using assms by (simp add: causal_ok_def)
  have len: "stride cv \<le> int T" using a by linarith
  from CausalConv1d_forward_shape[OF assms _ _ ch len, of x pre] a
  show "\<exists>y. forward elu (MCausalConv1d cv) x = Inr y \<and>
            shape y = pre @ [nat (out_channels cv), T div nat (stride cv)]"
    by simp
qed

lemma shape_map_Residual:
  assumes "shape_map elu fn c c P (\<lambda>T. T)"
  shows "shape_map elu (Residual fn) c c P (\<lambda>T. T)"
  unfolding shape_map_def
proof (intro allI impI)
  fix x :: "'a tensor" and pre T
  assume a: "shape x = pre @ [c, T] \<and> length pre \<le> 1 \<and> P T"
  with assms obtain fx where fx: "forward elu fn x = Inr fx" and s: "shape fx = pre @ [c, T]"
    unfolding shape_map_def by blast
  have "shape fx = shape x" using s a by simp
  from tensor_add_same_shape[OF this] obtain y where "tensor_add fx x = Inr y" "shape y = shape fx"
    by blast
  then show "\<exists>y. forward elu (Residual fn) x = Inr y \<and> shape y = pre @ [c, T]"
    using fx s by simp
qed

lemma shape_map_conv_init:
  assumes init: "CausalConv1d_init cin cout k s 1 ''zeros'' [] th = Inr cv"
    and k: "1 \<le> k" and s: "1 \<le> s"
  shows "shape_map elu (MCausalConv1d cv) (nat cin) (nat cout) (\<lambda>T. nat s \<le> T) (\<lambda>T. T div nat s)"
proof -
  have ok: "causal_ok cv" using init k s by (rule CausalConv1d_init_ok) simp
  from shape_map_conv[OF ok] CausalConv1d_init_fields[OF init] show ?thesis by simp
qed

lemma ResidualUnit_inner_shape_map:
  assumes c1: "CausalConv1d_init c c k 1 d ''zeros'' [] th1 = Inr c1"
    and c2: "CausalConv1d_init c c 1 1 1 ''zeros'' [] th2 = Inr c2"
    and d: "1 \<le> d" and k: "1 \<le> k"
  shows "shape_map elu (Sequential [MCausalConv1d c1, MELU, MCausalConv1d c2, MELU])
           (nat c) (nat c) (\<lambda>T. 1 \<le> T) (\<lambda>T. T)"
proof -
  have ok1: "causal_ok c1" using c1 k _ d by (rule CausalConv1d_init_ok) simp
  have ok2: "causal_ok c2" using c2 by (rule CausalConv1d_init_ok) simp_all
  have m1: "shape_map elu (MCausalConv1d c1) (nat c) (nat c) (\<lambda>T. 1 \<le> T) (\<lambda>T. T div 1)"
    using shape_map_conv[OF ok1] CausalConv1d_init_fields[OF c1] by simp
  have m2: "shape_map elu (MCausalConv1d c2) (nat c) (nat c) (\<lambda>T. 1 \<le> T) (\<lambda>T. T div 1)"
    using shape_map_conv[OF ok2] CausalConv1d_init_fields[OF c2] by simp
  note e = shape_map_ELU[of elu "nat c"]
  show ?thesis
    by (rule shape_map_weaken[OF shape_map_Cons[OF m1 shape_map_Cons[OF e
          shape_map_Cons[OF m2 shape_map_Cons[OF e shape_map_Nil]]]]]) simp
qed

lemma ResidualUnit_shape_map:
  assumes "ResidualUnit c d k [] st = Inr m" and d: "1 \<le> d" and k: "1 \<le> k"
  shows "shape_map elu m (nat c) (nat c) (\<lambda>T. 1 \<le> T) (\<lambda>T. T)"
proof -
  from ResidualUnit_Inr[OF assms(1)] obtain c1 c2
    where m: "m = Residual (Sequential [MCausalConv1d c1, MELU, MCausalConv1d c2, MELU])"
      and c1: "CausalConv1d_init c c k 1 d ''zeros'' [] (st [0]) = Inr c1"
      and c2: "CausalConv1d_init c c 1 1 1 ''zeros'' [] (st [2]) = Inr c2"
    by blast
  show ?thesis unfolding m
    by (rule shape_map_Residual[OF ResidualUnit_inner_shape_map[OF c1 c2 d k]])
qed

lemma EncoderBlock_shape_map:
  assumes b: "EncoderBlock cin cout s st = Inr m" and s: "1 \<le> s"
  shows "shape_map elu m (nat cin) (nat cout) (\<lambda>T. nat s \<le> T) (\<lambda>T. T div nat s)"
proof -
  from b obtain r1 r2 r3 cv
    where m: "m = Sequential [r1, r2, r3, MCausalConv1d cv, MELU]"
      and r1: "ResidualUnit cin 1 7 [] (child 0 st) = Inr r1"
      and r2: "ResidualUnit cin 3 7 [] (child 1 st) = Inr r2"
      and r3: "ResidualUnit cin 9 7 [] (child 2 st) = Inr r3"
      and cv: "CausalConv1d_init cin cout (2 * s) s 1 ''zeros'' [] (st [3]) = Inr cv"
    by (auto simp: EncoderBlock_def and_then_eq_Inr simp del: sequence.simps)
  note u1 = ResidualUnit_shape_map[OF r1, of elu]
    and u2 = ResidualUnit_shape_map[OF r2, of elu]
    and u3 = ResidualUnit_shape_map[OF r3, of elu]
  have k: "1 \<le> 2 * s" using s by simp
  note c = shape_map_conv_init[OF cv k s, of elu]
  have "shape_map elu (Sequential [r1, r2, r3, MCausalConv1d cv, MELU]) (nat cin) (nat cout)
          (\<lambda>T. nat s \<le> T) (\<lambda>T. T div nat s)"
    apply (rule shape_map_weaken[OF shape_map_Cons[OF u1 shape_map_Cons[OF u2
          shape_map_Cons[OF u3 shape_map_Cons[OF c shape_map_Cons[OF shape_map_ELU shape_map_Nil]]]]]])
    using s by auto
  then show ?thesis by (simp add: m)
qed

lemma EncoderBlock_succeeds:
  assumes "0 \<le> cin" "0 \<le> cout" "0 \<le> s"
  shows "\<exists>m. EncoderBlock cin cout s st = Inr m"
proof -
  obtain r1 where r1: "ResidualUnit cin 1 7 [] (child 0 st) = Inr r1"
    using ResidualUnit_succeeds[OF assms(1), of 7] by auto
  obtain r2 where r2: "ResidualUnit cin 3 7 [] (child 1 st) = Inr r2"
    using ResidualUnit_succeeds[OF assms(1), of 7] by auto
  obtain r3 where r3: "ResidualUnit cin 9 7 [] (child 2 st) = Inr r3"
    using ResidualUnit_succeeds[OF assms(1), of 7] by auto
  obtain cv where cv: "CausalConv1d_init cin cout (2 * s) s 1 ''zeros'' [] (st [3]) = Inr cv"
    using CausalConv1d_init_succeeds[OF assms(1) assms(2), of "2 * s"] assms(3) by fastforce
  show ?thesis unfolding EncoderBlock_def r1 r2 r3 cv by simp
qed

section \<open>Inputs that are too short\<close>

lemma shape_fail_weaken:
  assumes "shape_fail elu m cin P" "\<And>T. P' T \<Longrightarrow> P T"
  shows "shape_fail elu m cin P'"
  using assms unfolding shape_fail_def by blast

lemma shape_fail_or:
  assumes "shape_fail elu m cin P" "shape_fail elu m cin Q"
  shows "shape_fail elu m cin (\<lambda>T. P T \<or> Q T)"
  using assms unfolding shape_fail_def by blast

lemma shape_fail_head:
  assumes "shape_fail elu m cin P"
  shows "shape_fail elu (Sequential (m # ms)) cin P"
  unfolding shape_fail_def
proof (intro allI impI)
  fix x :: "'a tensor" and pre T
  assume "shape x = pre @ [cin, T] \<and> length pre \<le> 1 \<and> P T"
  with assms have "isl (forward elu m x)" unfolding shape_fail_def by blast
  then show "isl (forward elu (Sequential (m # ms)) x)"
    by (cases "forward elu m x") simp_all
qed

lemma shape_fail_tail:
  assumes m: "shape_map elu m c0 c1 P1 g1"
    and ms: "shape_fail elu (Sequential ms) c1 P2"
  shows "shape_fail elu (Sequential (m # ms)) c0 (\<lambda>T. P1 T \<and> P2 (g1 T))"
  unfolding shape_fail_def
proof (intro allI impI)
  fix x :: "'a tensor" and pre T
  assume a: "shape x = pre @ [c0, T] \<and> length pre \<le> 1 \<and> P1 T \<and> P2 (g1 T)"
  with m obtain y where y: "forward elu m x = Inr y" and sy: "shape y = pre @ [c1, g1 T]"
    unfolding shape_map_def by blast
  from ms sy a have "isl (forward elu (Sequential ms) y)"
    unfolding shape_fail_def by blast
  then show "isl (forward elu (Sequential (m # ms)) x)"
    using y by simp
qed

lemma shape_fail_conv:
  assumes "causal_ok cv"
  shows "shape_fail elu (MCausalConv1d cv) cin (\<lambda>T. T < nat (stride cv))"
  unfolding shape_fail_def
proof (intro allI impI)
  fix x :: "'a tensor" and pre T
  assume a: "shape x = pre @ [cin, T] \<and> length pre \<le> 1 \<and> T < nat (stride cv)"
  then have "int T < stride cv" by linarith
  from CausalConv1d_forward_short[OF assms _ this, of x pre cin] a
  show "isl (forward elu (MCausalConv1d cv) x)" by simp
qed

lemma shape_fail_Residual:
  assumes "shape_fail elu fn c P"
  shows "shape_fail elu (Residual fn) c P"
  unfolding shape_fail_def
proof (intro allI impI)
  fix x :: "'a tensor" and pre T
  assume "shape x = pre @ [c, T] \<and> length pre \<le> 1 \<and> P T"
  with assms have "isl (forward elu fn x)" unfolding shape_fail_def by blast
  then show "isl (forward elu (Residual fn) x)"
    by (cases "forward elu fn x") simp_all
qed

lemma ResidualUnit_shape_fail:
  assumes "ResidualUnit c d k [] st = Inr m" and d: "1 \<le> d" and k: "1 \<le> k"
  shows "shape_fail elu m cin (\<lambda>T. T = 0)"
proof -
  from ResidualUnit_Inr[OF assms(1)] obtain c1 c2
    where m: "m = Residual (Sequential [MCausalConv1d c1, MELU, MCausalConv1d c2, MELU])"
      and c1: "CausalConv1d_init c c k 1 d ''zeros'' [] (st [0]) = Inr c1"
    by blast
  have ok1: "causal_ok c1" using c1 k _ d by (rule CausalConv1d_init_ok) simp
  have "shape_fail elu (MCausalConv1d c1) cin (\<lambda>T. T = 0)"
    using shape_fail_conv[OF ok1, of elu cin] CausalConv1d_init_fields[OF c1]
    by (simp add: shape_fail_def)
  then show ?thesis unfolding m
    by (intro shape_fail_Residual shape_fail_head)
qed

lemma EncoderBlock_shape_fail:
  assumes b: "EncoderBlock cin cout s st = Inr m" and s: "1 \<le> s"
  shows "shape_fail elu m (nat cin) (\<lambda>T. T < nat s)"
proof -
  from b obtain r1 r2 r3 cv
    where m: "m = Sequential [r1, r2, r3, MCausalConv1d cv, MELU]"
      and r1: "ResidualUnit cin 1 7 [] (child 0 st) = Inr r1"
      and r2: "ResidualUnit cin 3 7 [] (child 1 st) = Inr r2"
      and r3: "ResidualUnit cin 9 7 [] (child 2 st) = Inr r3"
      and cv: "CausalConv1d_init cin cout (2 * s) s 1 ''zeros'' [] (st [3]) = Inr cv"
    by (auto simp: EncoderBlock_def and_then_eq_Inr simp del: sequence.simps)
  note u1 = ResidualUnit_shape_map[OF r1, of elu]
    and u2 = ResidualUnit_shape_map[OF r2, of elu]
    and u3 = ResidualUnit_shape_map[OF r3, of elu]
  have ok: "causal_ok cv" using cv _ s by (rule CausalConv1d_init_ok) (use s in simp_all)
  have fc: "shape_fail elu (MCausalConv1d cv) (nat cin) (\<lambda>T. T < nat s)"
    using shape_fail_conv[OF ok, of elu "nat cin"] CausalConv1d_init_fields[OF cv] by simp
  have f0: "shape_fail elu (Sequential [r1, r2, r3, MCausalConv1d cv, MELU]) (nat cin) (\<lambda>T. T = 0)"
    by (rule shape_fail_head[OF ResidualUnit_shape_fail[OF r1]]) simp_all
  have f1: "shape_fail elu (Sequential [r1, r2, r3, MCausalConv1d cv, MELU]) (nat cin)
              (\<lambda>T. 1 \<le> T \<and> T < nat s)"
    by (rule shape_fail_weaken[OF shape_fail_tail[OF u1 shape_fail_tail[OF u2
          shape_fail_tail[OF u3 shape_fail_head[OF fc]]]]]) simp_all
  show ?thesis unfolding m
    by (rule shape_fail_weaken[OF shape_fail_or[OF f0 f1]]) auto
qed



section \<open>Downsampling stages\<close>

lemma downsamples_Cons:
  assumes m: "downsamples elu m c0 c1 s" and ms: "downsamples elu (Sequential ms) c1 c2 q"
    and s: "0 < s" and q: "0 < q"
  shows "downsamples elu (Sequential (m # ms)) c0 c2 (s * q)"
proof -
  from m have m1: "shape_map elu m c0 c1 (\<lambda>T. s \<le> T) (\<lambda>T. T div s)"
    and m2: "shape_fail elu m c0 (\<lambda>T. T < s)" by (simp_all add: downsamples_def)
  from ms have n1: "shape_map elu (Sequential ms) c1 c2 (\<lambda>T. q \<le> T) (\<lambda>T. T div q)"
    and n2: "shape_fail elu (Sequential ms) c1 (\<lambda>T. T < q)" by (simp_all add: downsamples_def)
  have le: "\<And>T. s * q \<le> T \<longleftrightarrow> s \<le> T \<and> q \<le> T div s"
  proof -
    fix T
    have "q \<le> T div s \<longleftrightarrow> q * s \<le> T" using s by (simp add: less_eq_div_iff_mult_less_eq)
    moreover have "q * s \<le> T \<Longrightarrow> s \<le> T" using q
      by (metis One_nat_def Suc_leI le_trans mult.commute mult_le_mono1 nat_mult_1)
    ultimately show "s * q \<le> T \<longleftrightarrow> s \<le> T \<and> q \<le> T div s" by (auto simp: mult.commute)
  qed
  have a: "shape_map elu (Sequential (m # ms)) c0 c2 (\<lambda>T. s * q \<le> T) (\<lambda>T. T div (s * q))"
    by (rule shape_map_weaken[OF shape_map_Cons[OF m1 n1]]) (simp add: le div_mult2_eq)
  have f1: "shape_fail elu (Sequential (m # ms)) c0 (\<lambda>T. T < s)"
    by (rule shape_fail_head[OF m2])
  have f2: "shape_fail elu (Sequential (m # ms)) c0 (\<lambda>T. s \<le> T \<and> T div s < q)"
    by (rule shape_fail_tail[OF m1 n2])
  have b: "shape_fail elu (Sequential (m # ms)) c0 (\<lambda>T. T < s * q)"
  proof (rule shape_fail_weaken[OF shape_fail_or[OF f1 f2]])
    fix T assume "T < s * q"
    then have "\<not> (s \<le> T \<and> q \<le> T div s)" using le[of T] by simp
    then show "T < s \<or> s \<le> T \<and> T div s < q" by auto
  qed
  show ?thesis using a b by (simp add: downsamples_def)
qed

lemma downsamples_Cons_ELU:
  assumes "downsamples elu (Sequential ms) c c2 q"
  shows "downsamples elu (Sequential (MELU # ms)) c c2 q"
proof -
  from assms have n1: "shape_map elu (Sequential ms) c c2 (\<lambda>T. q \<le> T) (\<lambda>T. T div q)"
    and n2: "shape_fail elu (Sequential ms) c (\<lambda>T. T < q)" by (simp_all add: downsamples_def)
  have a: "shape_map elu (Sequential (MELU # ms)) c c2 (\<lambda>T. q \<le> T) (\<lambda>T. T div q)"
    by (rule shape_map_weaken[OF shape_map_Cons[OF shape_map_ELU n1]]) simp
  have b: "shape_fail elu (Sequential (MELU # ms)) c (\<lambda>T. T < q)"
    by (rule shape_fail_weaken[OF shape_fail_tail[OF shape_map_ELU n2]]) simp
  show ?thesis using a b by (simp add: downsamples_def)
qed

lemma downsamples_last:
  assumes "downsamples elu m c0 c1 s"
  shows "downsamples elu (Sequential [m, MELU]) c0 c1 s"
proof -
  from assms have m1: "shape_map elu m c0 c1 (\<lambda>T. s \<le> T) (\<lambda>T. T div s)"
    and m2: "shape_fail elu m c0 (\<lambda>T. T < s)" by (simp_all add: downsamples_def)
  have a: "shape_map elu (Sequential [m, MELU]) c0 c1 (\<lambda>T. s \<le> T) (\<lambda>T. T div s)"
    by (rule shape_map_weaken[OF shape_map_Cons[OF m1 shape_map_Cons[OF shape_map_ELU shape_map_Nil]]])
       simp
  have b: "shape_fail elu (Sequential [m, MELU]) c0 (\<lambda>T. T < s)"
    by (rule shape_fail_head[OF m2])
  show ?thesis using a b by (simp add: downsamples_def)
qed

lemma downsamples_conv_init:
  assumes init: "CausalConv1d_init cin cout k s 1 ''zeros'' [] th = Inr cv"
    and k: "1 \<le> k" and s: "1 \<le> s"
  shows "downsamples elu (MCausalConv1d cv) (nat cin) (nat cout) (nat s)"
proof -
  have ok: "causal_ok cv" using init k s by (rule CausalConv1d_init_ok) simp
  have "shape_fail elu (MCausalConv1d cv) (nat cin) (\<lambda>T. T < nat s)"
    using shape_fail_conv[OF ok, of elu "nat cin"] CausalConv1d_init_fields[OF init] by simp
  then show ?thesis
    using shape_map_conv_init[OF init k s, of elu] by (simp add: downsamples_def)
qed

lemma downsamples_EncoderBlock:
  assumes "EncoderBlock cin cout s st = Inr m" "1 \<le> s"
  shows "downsamples elu m (nat cin) (nat cout) (nat s)"
  using EncoderBlock_shape_map[OF assms] EncoderBlock_shape_fail[OF assms]
  by (simp add: downsamples_def)

section \<open>The Encoder\<close>

lemma swap_last_two_snoc: "swap_last_two (pre @ [a, b]) = pre @ [b, a]"
  by (simp add: swap_last_two_def nth_append)

lemma Encoder_Inr:
  assumes "Encoder scale emb st = Inr enc"
  shows "\<exists>stem b1 b2 b3 b4 outc.
     enc = Sequential (MRearrange AddChannel #
             [MCausalConv1d stem, MELU, b1, b2, b3, b4, MCausalConv1d outc, MELU] @
             [MRearrange SwapLastTwo]) \<and>
     CausalConv1d_init 1 scale 7 1 1 ''zeros'' [] (st [1]) = Inr stem \<and>
     EncoderBlock scale (2 * scale) 2 (child 3 st) = Inr b1 \<and>
     EncoderBlock (2 * scale) (4 * scale) 4 (child 4 st) = Inr b2 \<and>
     EncoderBlock (4 * scale) (8 * scale) 5 (child 5 st) = Inr b3 \<and>
     EncoderBlock (8 * scale) (16 * scale) 8 (child 6 st) = Inr b4 \<and>
     CausalConv1d_init (16 * scale) emb 3 1 1 ''zeros'' [] (st [7]) = Inr outc"
  using assms
  by (auto simp: Encoder_def and_then_eq_Inr simp del: sequence.simps)

lemma Encoder_succeeds:
  assumes "0 \<le> scale" "0 \<le> emb"
  shows "\<exists>enc. Encoder scale emb st = Inr enc"
proof -
  obtain stem where stem: "CausalConv1d_init 1 scale 7 1 1 ''zeros'' [] (st [1]) = Inr stem"
    using CausalConv1d_init_succeeds[of 1 scale 7] assms by fastforce
  obtain b1 where b1: "EncoderBlock scale (2 * scale) 2 (child 3 st) = Inr b1"
    using EncoderBlock_succeeds[of scale "2 * scale" 2] assms by fastforce
  obtain b2 where b2: "EncoderBlock (2 * scale) (4 * scale) 4 (child 4 st) = Inr b2"
    using EncoderBlock_succeeds[of "2 * scale" "4 * scale" 4] assms by fastforce
  obtain b3 where b3: "EncoderBlock (4 * scale) (8 * scale) 5 (child 5 st) = Inr b3"
    using EncoderBlock_succeeds[of "4 * scale" "8 * scale" 5] assms by fastforce
  obtain b4 where b4: "EncoderBlock (8 * scale) (16 * scale) 8 (child 6 st) = Inr b4"
    using EncoderBlock_succeeds[of "8 * scale" "16 * scale" 8] assms by fastforce
  obtain outc where outc: "CausalConv1d_init (16 * scale) emb 3 1 1 ''zeros'' [] (st [7]) = Inr outc"
    using CausalConv1d_init_succeeds[of "16 * scale" emb 3] assms by fastforce
  show ?thesis unfolding Encoder_def stem b1 b2 b3 b4 outc by simp
qed

lemma Encoder_mid_downsamples:
  assumes stem: "CausalConv1d_init 1 scale 7 1 1 ''zeros'' [] th1 = Inr stem"
    and b1: "EncoderBlock scale (2 * scale) 2 st1 = Inr b1"
    and b2: "EncoderBlock (2 * scale) (4 * scale) 4 st2 = Inr b2"
    and b3: "EncoderBlock (4 * scale) (8 * scale) 5 st3 = Inr b3"
    and b4: "EncoderBlock (8 * scale) (16 * scale) 8 st4 = Inr b4"
    and outc: "CausalConv1d_init (16 * scale) emb 3 1 1 ''zeros'' [] th2 = Inr outc"
  shows "downsamples elu
     (Sequential [MCausalConv1d stem, MELU, b1, b2, b3, b4, MCausalConv1d outc, MELU])
     1 (nat emb) 320"
proof -
  have d5: "downsamples elu (Sequential [MCausalConv1d outc, MELU]) (nat (16 * scale)) (nat emb) 1"
    using downsamples_last[OF downsamples_conv_init[OF outc, of elu]] by simp
  have d4: "downsamples elu (Sequential [b4, MCausalConv1d outc, MELU])
              (nat (8 * scale)) (nat emb) 8"
    using downsamples_Cons[OF downsamples_EncoderBlock[OF b4, of elu] d5] by simp
  have d3: "downsamples elu (Sequential [b3, b4, MCausalConv1d outc, MELU])
              (nat (4 * scale)) (nat emb) 40"
    using downsamples_Cons[OF downsamples_EncoderBlock[OF b3, of elu] d4] by simp
  have d2: "downsamples elu (Sequential [b2, b3, b4, MCausalConv1d outc, MELU])
              (nat (2 * scale)) (nat emb) 160"
    using downsamples_Cons[OF downsamples_EncoderBlock[OF b2, of elu] d3] by simp
  have d1: "downsamples elu (Sequential [b1, b2, b3, b4, MCausalConv1d outc, MELU])
              (nat scale) (nat emb) 320"
    using downsamples_Cons[OF downsamples_EncoderBlock[OF b1, of elu] d2] by simp
  have d0: "downsamples elu (Sequential [MELU, b1, b2, b3, b4, MCausalConv1d outc, MELU])
              (nat scale) (nat emb) 320"
    by (rule downsamples_Cons_ELU[OF d1])
  show ?thesis
    using downsamples_Cons[OF downsamples_conv_init[OF stem, of elu] d0] by simp
qed

lemma Encoder_forward_shape:
  fixes x :: "'a::semiring_0 tensor"
  assumes enc: "Encoder scale emb st = Inr enc"
    and sh: "shape x = pre @ [T]" and pre: "length pre \<le> 1"
  shows "if 320 \<le> T
         then \<exists>y. Encoder_forward elu enc x = Inr y \<and> shape y = pre @ [T div 320, nat emb]
         else isl (Encoder_forward elu enc x)"
proof -
  from Encoder_Inr[OF enc] obtain stem b1 b2 b3 b4 outc
    where e: "enc = Sequential (MRearrange AddChannel #
             [MCausalConv1d stem, MELU, b1, b2, b3, b4, MCausalConv1d outc, MELU] @
             [MRearrange SwapLastTwo])"
      and stem: "CausalConv1d_init 1 scale 7 1 1 ''zeros'' [] (st [1]) = Inr stem"
      and b1: "EncoderBlock scale (2 * scale) 2 (child 3 st) = Inr b1"
      and b2: "EncoderBlock (2 * scale) (4 * scale) 4 (child 4 st) = Inr b2"
      and b3: "EncoderBlock (4 * scale) (8 * scale) 5 (child 5 st) = Inr b3"
      and b4: "EncoderBlock (8 * scale) (16 * scale) 8 (child 6 st) = Inr b4"
      and outc: "CausalConv1d_init (16 * scale) emb 3 1 1 ''zeros'' [] (st [7]) = Inr outc"
    by blast
  let ?mid = "[MCausalConv1d stem, MELU, b1, b2, b3, b4, MCausalConv1d outc, MELU]"
  note d = Encoder_mid_downsamples[OF stem b1 b2 b3 b4 outc, of elu]
  define x1 where "x1 = \<lparr>shape = butlast (shape x) @ [1, last (shape x)],
                elem = (\<lambda>idx. elem x (butlast (butlast idx) @ [last idx]))\<rparr>"
  have r1: "Rearrange_forward AddChannel x = Inr x1" by (simp add: x1_def sh)
  have s1: "shape x1 = pre @ [1, T]" by (simp add: x1_def sh)
  have fw: "Encoder_forward elu enc x =
      (case Sequential_forward elu ?mid x1 of Inl e \<Rightarrow> Inl e
       | Inr y \<Rightarrow> Sequential_forward elu [MRearrange SwapLastTwo] y)"
    unfolding Encoder_forward_def e forward.simps Sequential_forward.simps(2)[of elu "MRearrange AddChannel"]
      r1 Sequential_forward_append by simp
  show ?thesis
  proof (cases "320 \<le> T")
    case True
    with d s1 pre obtain y where y: "forward elu (Sequential ?mid) x1 = Inr y"
      and sy: "shape y = pre @ [nat emb, T div 320]"
      unfolding downsamples_def shape_map_def by blast
    have "Encoder_forward elu enc x = Rearrange_forward SwapLastTwo y"
      using y by (simp add: fw split: sum.splits)
    then show ?thesis using True sy by (simp add: swap_last_two_snoc)
  next
    case False
    with d s1 pre have "isl (forward elu (Sequential ?mid) x1)"
      unfolding downsamples_def shape_fail_def by (metis not_le)
    then show ?thesis using False
      by (cases "Sequential_forward elu ?mid x1") (simp_all add: fw)
  qed
qed

text \<open>
  Claim C3, as the code has it. For every waveform of shape \<^verbatim>\<open>(samples)\<close> or
  \<^verbatim>\<open>(batch, samples)\<close>: with at least 320 samples \<^verbatim>\<open>Encoder.forward\<close> returns a tensor of
  shape \<^verbatim>\<open>(..., frames, embedding_dim)\<close> with \<open>frames = floor(samples / 320)\<close>, which is
  \<open>ceil(samples / 320)\<close> exactly when 320 divides the number of samples; with fewer than
  320 samples it raises.
\<close>

theorem Encoder_frames:
  fixes x :: "'a::semiring_0 tensor"
  assumes scale: "1 \<le> scale" and emb: "1 \<le> embedding_dim"
    and sh: "shape x = pre @ [samples]" and pre: "length pre \<le> 1"
  shows "\<exists>enc. Encoder scale embedding_dim st = Inr enc \<and>
     (if 320 \<le> samples
      then \<exists>y. Encoder_forward elu enc x = Inr y \<and>
               shape y = pre @ [samples div 320, nat embedding_dim]
      else isl (Encoder_forward elu enc x)) \<and>
     (samples div 320 = ceil_div samples 320 \<longleftrightarrow> 320 dvd samples)"
proof -
  obtain enc :: "'a module" where enc: "Encoder scale embedding_dim st = Inr enc"
    using Encoder_succeeds[of scale embedding_dim st] scale emb by auto
  have "ceil_div samples 320 = samples div 320 \<longleftrightarrow> 320 dvd samples"
    by (rule ceil_div_eq_div_iff) simp
  then have c: "samples div 320 = ceil_div samples 320 \<longleftrightarrow> 320 dvd samples" by auto
  from Encoder_forward_shape[OF enc sh pre, of elu] enc c show ?thesis by auto
qed

theorem Encoder_frames_witness:
  "\<exists>y. Encoder_forward id (projr (Encoder 32 64 zero_store)) (zeros [2, 16000] :: int tensor)
          = Inr y \<and> shape y = [2, 50, 64]"
proof -
  have sh: "shape (zeros [2, 16000] :: int tensor) = [2] @ [16000]" by (simp add: zeros_def)
  from Encoder_frames[of 32 64 "zeros [2, 16000] :: int tensor" "[2]" 16000 zero_store id, OF _ _ sh]
  show ?thesis by auto
qed

text \<open>
  A waveform of 321 samples gives one frame, not \<open>ceil(321 / 320) = 2\<close>, and a waveform
  with two leading axes is refused by the first convolution.
\<close>

theorem Encoder_frames_counterexample:
  "result_shape (call1 (Encoder 1 1 zero_store) (Encoder_forward id) (zeros [321] :: int tensor))
     = Inr [1, 1] \<and>
   ceil_div 321 320 = 2 \<and>
   isl (call1 (Encoder 1 1 zero_store) (Encoder_forward id) (zeros [2, 2, 640] :: int tensor))"
proof -
  obtain enc :: "int module" where enc: "Encoder 1 1 zero_store = Inr enc"
    using Encoder_succeeds[of 1 1 zero_store] by auto
  have sh: "shape (zeros [321] :: int tensor) = [] @ [321]" by (simp add: zeros_def)
  from Encoder_forward_shape[OF enc sh, of id]
  have a: "result_shape (call1 (Encoder 1 1 zero_store) (Encoder_forward id) (zeros [321] :: int tensor))
     = Inr [1, 1]"
    by (auto simp: result_shape_def call1_def enc)
  from Encoder_Inr[OF enc] obtain stem ms
    where e: "enc = Sequential (MRearrange AddChannel # MCausalConv1d stem # ms)"
      and stem: "CausalConv1d_init 1 1 7 1 1 ''zeros'' [] (zero_store [1]) = Inr stem"
    by auto
  have "causal_padding stem = 6" "pad_mode stem = ''constant''"
    using CausalConv1d_init_fields[OF stem] by simp_all
  then have "isl (Encoder_forward id enc (zeros [2, 2, 640] :: int tensor))"
    by (simp add: Encoder_forward_def e zeros_def CausalConv1d_forward_def F_pad_def
        Conv1d_forward_def Let_def)
  then have b: "isl (call1 (Encoder 1 1 zero_store) (Encoder_forward id) (zeros [2, 2, 640] :: int tensor))"
    by (simp add: call1_def enc)
  have c: "ceil_div 321 320 = 2" by (simp add: ceil_div_def)
  show ?thesis using a b c by simp
qed

section \<open>FiLM\<close>

lemma Linear_forward_shape:
  assumes "shape c = pre @ [cd]" "int cd = in_features lin"
  shows "\<exists>g. Linear_forward lin c = Inr g \<and> shape g = pre @ [nat (out_features lin)]"
  using assms by (simp add: Linear_forward_def)

lemma FiLM_init_fields:
  assumes "FiLM_init dim cd thg thb = Inr film"
  shows "in_features (to_gamma film) = cd \<and> out_features (to_gamma film) = dim \<and>
         in_features (to_beta film) = cd \<and> out_features (to_beta film) = dim \<and>
         lin_theta (to_gamma film) = thg \<and> lin_theta (to_beta film) = thb \<and>
         0 \<le> cd \<and> 0 \<le> dim"
  using assms
  by (auto simp: FiLM_init_def Linear_init_def and_then_eq_Inr split: if_splits)

lemma FiLM_init_succeeds:
  assumes "0 \<le> dim" "0 \<le> cd"
  shows "\<exists>film. FiLM_init dim cd thg thb = Inr film"
  using assms by (simp add: FiLM_init_def Linear_init_def)

lemma FiLM_forward_result:
  fixes x :: "'a::{monoid_add,times} tensor"
  assumes g: "Linear_forward (to_gamma film) c = Inr g" and sg: "shape g = sh"
    and b: "Linear_forward (to_beta film) c = Inr b" and sb: "shape b = sh"
    and sx: "shape x = sh @ [T]"
  shows "\<exists>y. FiLM_forward film x c = Inr y \<and> shape y = sh @ [T] \<and>
     (\<forall>idx. valid_index (sh @ [T]) idx \<longrightarrow>
        elem y idx = elem x idx * elem g (butlast idx) + elem b (butlast idx))"
proof -
  have ug: "shape (unsqueeze_last g) = sh @ [1]" by (simp add: unsqueeze_last_def sg)
  have ub: "shape (unsqueeze_last b) = sh @ [1]" by (simp add: unsqueeze_last_def sb)
  from tensor_binop_last1[OF sx ug, of "(*)"] obtain xg
    where xg: "tensor_mul x (unsqueeze_last g) = Inr xg" and sxg: "shape xg = sh @ [T]"
      and exg: "\<And>idx. valid_index (sh @ [T]) idx \<Longrightarrow>
                  elem xg idx = elem x idx * elem (unsqueeze_last g) (butlast idx @ [0])"
    unfolding tensor_mul_def by blast
  from tensor_binop_last1[OF sxg ub, of "(+)"] obtain y
    where y: "tensor_add xg (unsqueeze_last b) = Inr y" and sy: "shape y = sh @ [T]"
      and ey: "\<And>idx. valid_index (sh @ [T]) idx \<Longrightarrow>
                  elem y idx = elem xg idx + elem (unsqueeze_last b) (butlast idx @ [0])"
    unfolding tensor_add_def by blast
  have "FiLM_forward film x c = Inr y" by (simp add: FiLM_forward_def g b xg y)
  moreover have "\<forall>idx. valid_index (sh @ [T]) idx \<longrightarrow>
        elem y idx = elem x idx * elem g (butlast idx) + elem b (butlast idx)"
    by (simp add: ey exg unsqueeze_last_def)
  ultimately show ?thesis using sy by blast
qed

lemma FiLM_forward_shape:
  fixes x :: "'a::{monoid_add,times} tensor"
  assumes film: "FiLM_init dim cd thg thb = Inr film"
    and sx: "shape x = pre @ [nat dim, T]" and sc: "shape c = pre @ [nat cd]"
  shows "\<exists>y. FiLM_forward film x c = Inr y \<and> shape y = pre @ [nat dim, T]"
proof -
  note f = FiLM_init_fields[OF film]
  have i1: "int (nat cd) = in_features (to_gamma film)" using f by simp
  have i2: "int (nat cd) = in_features (to_beta film)" using f by simp
  from Linear_forward_shape[OF sc i1] obtain g
    where g: "Linear_forward (to_gamma film) c = Inr g" and sg: "shape g = pre @ [nat dim]"
    using f by auto
  from Linear_forward_shape[OF sc i2] obtain b
    where b: "Linear_forward (to_beta film) c = Inr b" and sb: "shape b = pre @ [nat dim]"
    using f by auto
  have sx': "shape x = (pre @ [nat dim]) @ [T]" using sx by simp
  from FiLM_forward_result[OF g sg b sb sx'] show ?thesis by auto
qed










section \<open>The Decoder\<close>

lemma shape_mapD:
  assumes "shape_map elu m cin cout P g" "shape x = pre @ [cin, T]" "length pre \<le> 1" "P T"
  shows "\<exists>y. forward elu m x = Inr y \<and> shape y = pre @ [cout, g T]"
  using assms unfolding shape_map_def by blast

lemma shape_map_convtranspose_init:
  assumes init: "CausalConvTranspose1d_init cin cout (2 * s) s 1 [] th = Inr ct" and s: "1 \<le> s"
  shows "shape_map elu (MCausalConvTranspose1d ct) (nat cin) (nat cout)
           (\<lambda>T. 1 \<le> T) (\<lambda>T. T * nat s)"
  unfolding shape_map_def
proof (intro allI impI)
  fix x :: "'a tensor" and pre T
  assume a: "shape x = pre @ [nat cin, T] \<and> length pre \<le> 1 \<and> 1 \<le> T"
  note f = CausalConvTranspose1d_init_fields[OF init]
  have k': "1 \<le> kernel_size ct" and s': "1 \<le> stride ct" and d': "1 \<le> dilation ct"
    using f s by simp_all
  have ch: "int (nat cin) = in_channels ct" using f by simp
  from a have sh: "shape x = pre @ [nat cin, T]" and pre: "length pre \<le> 1" and len: "1 \<le> T"
    by simp_all
  from CausalConvTranspose1d_forward_shape[OF k' s' d' sh pre ch len]
  obtain y where y: "CausalConvTranspose1d_forward ct x = Inr y"
    and sy: "shape y = pre @ [nat cout,
        slice_stop (nat ((int T - 1) * s + 1 * (2 * s - 1) + 1)) (- (1 * (2 * s - 1) - (s - 1)))]"
    using f by auto
  have "slice_stop (nat ((int T - 1) * s + 1 * (2 * s - 1) + 1)) (- (1 * (2 * s - 1) - (s - 1)))
      = nat (int (nat ((int T - 1) * s + 1 * (2 * s - 1) + 1)) + - (1 * (2 * s - 1) - (s - 1)))"
    using s by (intro slice_stop_neg) simp
  also have "\<dots> = nat (int T * s)" using s len by (simp add: algebra_simps)
  also have "\<dots> = T * nat s" using s by (simp add: nat_mult_distrib)
  finally show "\<exists>y. forward elu (MCausalConvTranspose1d ct) x = Inr y \<and>
                    shape y = pre @ [nat cout, T * nat s]"
    using y sy by simp
qed

lemma DecoderBlock_Inr:
  assumes "DecoderBlock cin cout s st = Inr m"
  shows "\<exists>ct r1 r2 r3. m = Sequential [MCausalConvTranspose1d ct, r1, r2, r3] \<and>
     CausalConvTranspose1d_init cin cout (2 * s) s 1 [] (st [0]) = Inr ct \<and>
     ResidualUnit cout 1 7 [] (child 1 st) = Inr r1 \<and>
     ResidualUnit cout 3 7 [] (child 2 st) = Inr r2 \<and>
     ResidualUnit cout 9 7 [] (child 3 st) = Inr r3"
  using assms
  by (auto simp: DecoderBlock_def and_then_eq_Inr simp del: sequence.simps)

lemma DecoderBlock_succeeds:
  assumes "0 \<le> cin" "0 \<le> cout" "0 \<le> s"
  shows "\<exists>m. DecoderBlock cin cout s st = Inr m"
proof -
  obtain ct where ct: "CausalConvTranspose1d_init cin cout (2 * s) s 1 [] (st [0]) = Inr ct"
    using CausalConvTranspose1d_init_succeeds[OF assms(1) assms(2), of "2 * s"] assms(3)
    by fastforce
  obtain r1 where r1: "ResidualUnit cout 1 7 [] (child 1 st) = Inr r1"
    using ResidualUnit_succeeds[OF assms(2), of 7] by auto
  obtain r2 where r2: "ResidualUnit cout 3 7 [] (child 2 st) = Inr r2"
    using ResidualUnit_succeeds[OF assms(2), of 7] by auto
  obtain r3 where r3: "ResidualUnit cout 9 7 [] (child 3 st) = Inr r3"
    using ResidualUnit_succeeds[OF assms(2), of 7] by auto
  show ?thesis unfolding DecoderBlock_def ct r1 r2 r3 by simp
qed

lemma DecoderBlock_shape_map:
  assumes b: "DecoderBlock cin cout s st = Inr m" and s: "1 \<le> s"
  shows "shape_map elu m (nat cin) (nat cout) (\<lambda>T. 1 \<le> T) (\<lambda>T. T * nat s)"
proof -
  from DecoderBlock_Inr[OF b] obtain ct r1 r2 r3
    where m: "m = Sequential [MCausalConvTranspose1d ct, r1, r2, r3]"
      and ct: "CausalConvTranspose1d_init cin cout (2 * s) s 1 [] (st [0]) = Inr ct"
      and r1: "ResidualUnit cout 1 7 [] (child 1 st) = Inr r1"
      and r2: "ResidualUnit cout 3 7 [] (child 2 st) = Inr r2"
      and r3: "ResidualUnit cout 9 7 [] (child 3 st) = Inr r3"
    by blast
  note u0 = shape_map_convtranspose_init[OF ct s, of elu]
    and u1 = ResidualUnit_shape_map[OF r1, of elu]
    and u2 = ResidualUnit_shape_map[OF r2, of elu]
    and u3 = ResidualUnit_shape_map[OF r3, of elu]
  have "shape_map elu (Sequential [MCausalConvTranspose1d ct, r1, r2, r3]) (nat cin) (nat cout)
          (\<lambda>T. 1 \<le> T) (\<lambda>T. T * nat s)"
    apply (rule shape_map_weaken[OF shape_map_Cons[OF u0 shape_map_Cons[OF u1
          shape_map_Cons[OF u2 shape_map_Cons[OF u3 shape_map_Nil]]]]])
    using s by auto
  then show ?thesis by (simp add: m)
qed

lemma SequentialWithFiLM_forward_plain:
  assumes "\<And>film. m \<noteq> MFiLM film"
  shows "SequentialWithFiLM_forward elu (m # ms) x c =
     (case forward elu m x of Inl e \<Rightarrow> Inl e
      | Inr y \<Rightarrow> SequentialWithFiLM_forward elu ms y c)"
  using assms by (cases m) auto

lemma DecoderBlock_not_FiLM:
  assumes "DecoderBlock cin cout s st = Inr m"
  shows "m \<noteq> MFiLM film"
  using DecoderBlock_Inr[OF assms] by auto

lemma Decoder_Inr:
  assumes "Decoder scale emb cd st = Inr dec"
  shows "\<exists>stem d1 f1 d2 f2 d3 f3 d4 f4 outc.
     dec = SequentialWithFiLM [MRearrange SwapLastTwo, MCausalConv1d stem, MELU,
             d1, MFiLM f1, d2, MFiLM f2, d3, MFiLM f3, d4, MFiLM f4,
             MCausalConv1d outc, MRearrange DropChannel] \<and>
     CausalConv1d_init emb (16 * scale) 7 1 1 ''zeros'' [] (st [1]) = Inr stem \<and>
     DecoderBlock (16 * scale) (8 * scale) 8 (child 3 st) = Inr d1 \<and>
     FiLM_init (8 * scale) cd (st [4, 0]) (st [4, 1]) = Inr f1 \<and>
     DecoderBlock (8 * scale) (4 * scale) 5 (child 5 st) = Inr d2 \<and>
     FiLM_init (4 * scale) cd (st [6, 0]) (st [6, 1]) = Inr f2 \<and>
     DecoderBlock (4 * scale) (2 * scale) 4 (child 7 st) = Inr d3 \<and>
     FiLM_init (2 * scale) cd (st [8, 0]) (st [8, 1]) = Inr f3 \<and>
     DecoderBlock (2 * scale) scale 2 (child 9 st) = Inr d4 \<and>
     FiLM_init scale cd (st [10, 0]) (st [10, 1]) = Inr f4 \<and>
     CausalConv1d_init scale 1 7 1 1 ''zeros'' [] (st [11]) = Inr outc"
  using assms
  by (auto simp: Decoder_def and_then_eq_Inr simp del: sequence.simps)

lemma Decoder_succeeds:
  assumes "0 \<le> scale" "0 \<le> emb" "0 \<le> cd"
  shows "\<exists>dec. Decoder scale emb cd st = Inr dec"
proof -
  obtain stem where stem: "CausalConv1d_init emb (16 * scale) 7 1 1 ''zeros'' [] (st [1]) = Inr stem"
    using CausalConv1d_init_succeeds[of emb "16 * scale" 7] assms by fastforce
  obtain d1 where d1: "DecoderBlock (16 * scale) (8 * scale) 8 (child 3 st) = Inr d1"
    using DecoderBlock_succeeds[of "16 * scale" "8 * scale" 8] assms by fastforce
  obtain d2 where d2: "DecoderBlock (8 * scale) (4 * scale) 5 (child 5 st) = Inr d2"
    using DecoderBlock_succeeds[of "8 * scale" "4 * scale" 5] assms by fastforce
  obtain d3 where d3: "DecoderBlock (4 * scale) (2 * scale) 4 (child 7 st) = Inr d3"
    using DecoderBlock_succeeds[of "4 * scale" "2 * scale" 4] assms by fastforce
  obtain d4 where d4: "DecoderBlock (2 * scale) scale 2 (child 9 st) = Inr d4"
    using DecoderBlock_succeeds[of "2 * scale" scale 2] assms by fastforce
  obtain f1 where f1: "FiLM_init (8 * scale) cd (st [4, 0]) (st [4, 1]) = Inr f1"
    using FiLM_init_succeeds[of "8 * scale" cd] assms by fastforce
  obtain f2 where f2: "FiLM_init (4 * scale) cd (st [6, 0]) (st [6, 1]) = Inr f2"
    using FiLM_init_succeeds[of "4 * scale" cd] assms by fastforce
  obtain f3 where f3: "FiLM_init (2 * scale) cd (st [8, 0]) (st [8, 1]) = Inr f3"
    using FiLM_init_succeeds[of "2 * scale" cd] assms by fastforce
  obtain f4 where f4: "FiLM_init scale cd (st [10, 0]) (st [10, 1]) = Inr f4"
    using FiLM_init_succeeds[of scale cd] assms by fastforce
  obtain outc where outc: "CausalConv1d_init scale 1 7 1 1 ''zeros'' [] (st [11]) = Inr outc"
    using CausalConv1d_init_succeeds[of scale 1 7] assms by fastforce
  show ?thesis unfolding Decoder_def stem d1 d2 d3 d4 f1 f2 f3 f4 outc by simp
qed

lemma Decoder_forward_shape:
  fixes x :: "'a::semiring_0 tensor"
  assumes dec: "Decoder scale emb cd st = Inr dec"
    and sx: "shape x = pre @ [F, nat emb]" and pre: "length pre \<le> 1"
    and sc: "shape c = pre @ [nat cd]"
  shows "if 1 \<le> F
         then \<exists>y. Decoder_forward elu dec x c = Inr y \<and> shape y = pre @ [F * 320]
         else isl (Decoder_forward elu dec x c)"
proof -
  from Decoder_Inr[OF dec] obtain stem d1 f1 d2 f2 d3 f3 d4 f4 outc
    where e: "dec = SequentialWithFiLM [MRearrange SwapLastTwo, MCausalConv1d stem, MELU,
             d1, MFiLM f1, d2, MFiLM f2, d3, MFiLM f3, d4, MFiLM f4,
             MCausalConv1d outc, MRearrange DropChannel]"
      and stem: "CausalConv1d_init emb (16 * scale) 7 1 1 ''zeros'' [] (st [1]) = Inr stem"
      and d1: "DecoderBlock (16 * scale) (8 * scale) 8 (child 3 st) = Inr d1"
      and f1: "FiLM_init (8 * scale) cd (st [4, 0]) (st [4, 1]) = Inr f1"
      and d2: "DecoderBlock (8 * scale) (4 * scale) 5 (child 5 st) = Inr d2"
      and f2: "FiLM_init (4 * scale) cd (st [6, 0]) (st [6, 1]) = Inr f2"
      and d3: "DecoderBlock (4 * scale) (2 * scale) 4 (child 7 st) = Inr d3"
      and f3: "FiLM_init (2 * scale) cd (st [8, 0]) (st [8, 1]) = Inr f3"
      and d4: "DecoderBlock (2 * scale) scale 2 (child 9 st) = Inr d4"
      and f4: "FiLM_init scale cd (st [10, 0]) (st [10, 1]) = Inr f4"
      and outc: "CausalConv1d_init scale 1 7 1 1 ''zeros'' [] (st [11]) = Inr outc"
    by blast
  note n1 = DecoderBlock_not_FiLM[OF d1] and n2 = DecoderBlock_not_FiLM[OF d2]
    and n3 = DecoderBlock_not_FiLM[OF d3] and n4 = DecoderBlock_not_FiLM[OF d4]
  define x0 where "x0 = \<lparr>shape = swap_last_two (shape x),
                elem = (\<lambda>idx. elem x (swap_last_two idx))\<rparr>"
  have r0: "Rearrange_forward SwapLastTwo x = Inr x0" by (simp add: x0_def sx)
  have s0: "shape x0 = pre @ [nat emb, F]" by (simp add: x0_def sx swap_last_two_snoc)
  show ?thesis
  proof (cases "1 \<le> F")
    case True
    from shape_mapD[OF shape_map_conv_init[OF stem, of elu] s0 pre] True
    obtain x1 where x1: "forward elu (MCausalConv1d stem) x0 = Inr x1"
      and s1: "shape x1 = pre @ [nat (16 * scale), F]" by auto
    have s2: "shape (tensor_map elu x1) = pre @ [nat (16 * scale), F]"
      using s1 by (simp add: tensor_map_def)
    from shape_mapD[OF DecoderBlock_shape_map[OF d1, of elu] s2 pre] True
    obtain x3 where x3: "forward elu d1 (tensor_map elu x1) = Inr x3"
      and s3: "shape x3 = pre @ [nat (8 * scale), F * 8]" by auto
    from FiLM_forward_shape[OF f1 s3 sc]
    obtain x4 where x4: "FiLM_forward f1 x3 c = Inr x4"
      and s4: "shape x4 = pre @ [nat (8 * scale), F * 8]" by auto
    from shape_mapD[OF DecoderBlock_shape_map[OF d2, of elu] s4 pre] True
    obtain x5 where x5: "forward elu d2 x4 = Inr x5"
      and s5: "shape x5 = pre @ [nat (4 * scale), F * 8 * 5]" by auto
    from FiLM_forward_shape[OF f2 s5 sc]
    obtain x6 where x6: "FiLM_forward f2 x5 c = Inr x6"
      and s6: "shape x6 = pre @ [nat (4 * scale), F * 8 * 5]" by auto
    from shape_mapD[OF DecoderBlock_shape_map[OF d3, of elu] s6 pre] True
    obtain x7 where x7: "forward elu d3 x6 = Inr x7"
      and s7: "shape x7 = pre @ [nat (2 * scale), F * 8 * 5 * 4]" by auto
    from FiLM_forward_shape[OF f3 s7 sc]
    obtain x8 where x8: "FiLM_forward f3 x7 c = Inr x8"
      and s8: "shape x8 = pre @ [nat (2 * scale), F * 8 * 5 * 4]" by auto
    from shape_mapD[OF DecoderBlock_shape_map[OF d4, of elu] s8 pre] True
    obtain x9 where x9: "forward elu d4 x8 = Inr x9"
      and s9: "shape x9 = pre @ [nat scale, F * 8 * 5 * 4 * 2]" by auto
    from FiLM_forward_shape[OF f4 s9 sc]
    obtain x10 where x10: "FiLM_forward f4 x9 c = Inr x10"
      and s10: "shape x10 = pre @ [nat scale, F * 8 * 5 * 4 * 2]" by auto
    from shape_mapD[OF shape_map_conv_init[OF outc, of elu] s10 pre] True
    obtain x11 where x11: "forward elu (MCausalConv1d outc) x10 = Inr x11"
      and s11: "shape x11 = pre @ [1, F * 320]" by auto
    obtain y where y: "Rearrange_forward DropChannel x11 = Inr y" and sy: "shape y = pre @ [F * 320]"
      by (simp add: s11 nth_append)
    have "Decoder_forward elu dec x c = Inr y"
      unfolding e Decoder_forward.simps
      using r0 x1 x3 x4 x5 x6 x7 x8 x9 x10 x11 y
      by (simp add: SequentialWithFiLM_forward_plain[OF n1] SequentialWithFiLM_forward_plain[OF n2]
          SequentialWithFiLM_forward_plain[OF n3] SequentialWithFiLM_forward_plain[OF n4])
    with True sy show ?thesis by auto
  next
    case False
    have ok: "causal_ok stem" using stem by (rule CausalConv1d_init_ok) simp_all
    have "int F < stride stem" using False CausalConv1d_init_fields[OF stem] by simp
    from CausalConv1d_forward_short[OF ok s0 this]
    have "isl (CausalConv1d_forward stem x0)" .
    then have "isl (Decoder_forward elu dec x c)"
      unfolding e Decoder_forward.simps using r0
      by (cases "CausalConv1d_forward stem x0") simp_all
    with False show ?thesis by simp
  qed
qed

text \<open>
  Claim C4, as the code has it. For every frame count \<open>F \<ge> 1\<close>, every embedding sequence
  of shape \<^verbatim>\<open>(F, embedding_dim)\<close> or \<^verbatim>\<open>(batch, F, embedding_dim)\<close> and every conditioning
  vector of shape \<^verbatim>\<open>(conditioning_dim)\<close> or \<^verbatim>\<open>(batch, conditioning_dim)\<close>,
  \<^verbatim>\<open>Decoder.forward\<close> returns a waveform of shape \<^verbatim>\<open>(..., samples)\<close> with
  \<open>samples = F * 320\<close>. With \<open>F = 0\<close> it raises.
\<close>

theorem Decoder_samples:
  fixes x :: "'a::semiring_0 tensor"
  assumes scale: "1 \<le> scale" and emb: "1 \<le> embedding_dim" and cd: "1 \<le> conditioning_dim"
    and sx: "shape x = pre @ [F, nat embedding_dim]" and pre: "length pre \<le> 1"
    and sc: "shape c = pre @ [nat conditioning_dim]"
  shows "\<exists>dec. Decoder scale embedding_dim conditioning_dim st = Inr dec \<and>
     (if 1 \<le> F
      then \<exists>y. Decoder_forward elu dec x c = Inr y \<and> shape y = pre @ [F * 320]
      else isl (Decoder_forward elu dec x c))"
proof -
  obtain dec :: "'a module" where dec: "Decoder scale embedding_dim conditioning_dim st = Inr dec"
    using Decoder_succeeds[of scale embedding_dim conditioning_dim st] scale emb cd by auto
  from Decoder_forward_shape[OF dec sx pre sc, of elu] dec show ?thesis by auto
qed

theorem Decoder_samples_witness:
  "\<exists>y. Decoder_forward id (projr (Decoder 32 64 8 zero_store))
          (zeros [2, 50, 64] :: int tensor) (zeros [2, 8]) = Inr y \<and> shape y = [2, 16000]"
proof -
  have sx: "shape (zeros [2, 50, 64] :: int tensor) = [2] @ [50, nat 64]" by (simp add: zeros_def)
  have sc: "shape (zeros [2, 8] :: int tensor) = [2] @ [nat 8]" by (simp add: zeros_def)
  from Decoder_samples[of 32 64 8 "zeros [2, 50, 64] :: int tensor" "[2]" 50 "zeros [2, 8]"
      zero_store id, OF _ _ _ sx _ sc]
  show ?thesis by auto
qed

text \<open>
  An embedding sequence without frames, and one with two leading axes, make the first
  convolution of the Decoder raise.
\<close>

theorem Decoder_samples_counterexample:
  "isl (call2 (Decoder 1 1 1 zero_store) (Decoder_forward id)
          (zeros [1, 0, 1] :: int tensor) (zeros [1, 1])) \<and>
   isl (call2 (Decoder 1 1 1 zero_store) (Decoder_forward id)
          (zeros [2, 2, 3, 1] :: int tensor) (zeros [2, 2, 1]))"
proof -
  obtain dec :: "int module" where dec: "Decoder 1 1 1 zero_store = Inr dec"
    using Decoder_succeeds[of 1 1 1 zero_store] by auto
  have sx: "shape (zeros [1, 0, 1] :: int tensor) = [1] @ [0, nat 1]" by (simp add: zeros_def)
  have sc: "shape (zeros [1, 1] :: int tensor) = [1] @ [nat 1]" by (simp add: zeros_def)
  from Decoder_forward_shape[OF dec sx _ sc, of id]
  have a: "isl (Decoder_forward id dec (zeros [1, 0, 1]) (zeros [1, 1]))" by simp
  from Decoder_Inr[OF dec] obtain stem ms
    where e: "dec = SequentialWithFiLM (MRearrange SwapLastTwo # MCausalConv1d stem # ms)"
      and stem: "CausalConv1d_init 1 (16 * 1) 7 1 1 ''zeros'' [] (zero_store [1]) = Inr stem"
    by auto
  have "causal_padding stem = 6" "pad_mode stem = ''constant''"
    using CausalConv1d_init_fields[OF stem] by simp_all
  then have b: "isl (Decoder_forward id dec (zeros [2, 2, 3, 1] :: int tensor) (zeros [2, 2, 1]))"
    by (simp add: e zeros_def CausalConv1d_forward_def F_pad_def swap_last_two_def
        Conv1d_forward_def Let_def)
  show ?thesis using a b by (simp add: call2_def dec)
qed

section \<open>LearnablePooling\<close>

text \<open>
  Claim C6 does not hold of the code. \<^verbatim>\<open>LearnablePooling.forward\<close> never returns a tensor:
  the attention module returns a pair, on which the source calls \<^verbatim>\<open>squeeze\<close>, as for
  an input of shape \<^verbatim>\<open>(10, 4)\<close>. For an input with the three axes
  \<^verbatim>\<open>(batch, frames, dim)\<close>, here \<^verbatim>\<open>(2, 10, 4)\<close>, the attention module itself raises,
  because the query \<^verbatim>\<open>pooling_weights\<close> has two axes.
\<close>

theorem LearnablePooling_forward_raises:
  "isl (LearnablePooling_forward att lp x) \<and>
   LearnablePooling_forward zero_attention (projr (LearnablePooling_init 4))
     (zeros [2, 10, 4] :: int tensor) = Inl AssertionError \<and>
   LearnablePooling_forward zero_attention (projr (LearnablePooling_init 4))
     (zeros [10, 4] :: int tensor) = Inl AttributeError"
proof -
  have a: "isl (LearnablePooling_forward att lp x)"
    by (cases "MultiheadAttention_forward att (attention lp) (pooling_weights lp) x x")
       (auto simp: LearnablePooling_forward_def)
  have b: "LearnablePooling_forward zero_attention (projr (LearnablePooling_init 4))
       (zeros [2, 10, 4] :: int tensor) = Inl AssertionError"
    by (simp add: LearnablePooling_forward_def LearnablePooling_init_def
        MultiheadAttention_init_def MultiheadAttention_forward_def ones_def zeros_def Let_def)
  have c: "LearnablePooling_forward zero_attention (projr (LearnablePooling_init 4))
       (zeros [10, 4] :: int tensor) = Inl AttributeError"
    by (simp add: LearnablePooling_forward_def LearnablePooling_init_def
        MultiheadAttention_init_def MultiheadAttention_forward_def ones_def zeros_def Let_def)
  show ?thesis using a b c by simp
qed

section \<open>Causality of the layers\<close>

lemma rank_2_3_split:
  assumes "length sh = 2 \<or> length sh = 3"
  shows "\<exists>pre C T. sh = pre @ [C, T] \<and> length pre \<le> 1"
proof -
  from assms have "sh = take (length sh - 2) sh @ [sh ! (length sh - 2), sh ! (length sh - 1)]"
    by (auto simp: list_eq_iff_nth_eq nth_append less_Suc_eq numeral_2_eq_2 numeral_3_eq_3)
  moreover have "length (take (length sh - 2) sh) \<le> 1" using assms by auto
  ultimately show ?thesis by blast
qed

lemma CausalConv1d_forward_Inr:
  fixes cv :: "'a::semiring_0 CausalConv1d"
  assumes ok: "causal_ok cv" and fw: "CausalConv1d_forward cv x = Inr x'"
  shows "\<exists>pre C T. shape x = pre @ [C, T] \<and> length pre \<le> 1 \<and> int C = in_channels cv \<and>
           stride cv \<le> int T \<and>
           shape x' = pre @ [nat (out_channels cv), T div nat (stride cv)] \<and>
           elem x' = Conv1d_elem cv
             \<lparr>shape = pre @ [C, nat (int T + causal_padding cv)],
              elem = (\<lambda>idx. if int (last idx) < causal_padding cv then 0
                         else elem x (butlast idx @ [nat (int (last idx) - causal_padding cv)]))\<rparr>"
proof -
  let ?p = "causal_padding cv"
  from ok have m: "pad_mode cv = ''constant''" by (simp add: causal_ok_def)
  from fw obtain xp where pad: "F_pad x ?p ''constant'' = Inr xp"
    and cf: "Conv1d_forward cv xp = Inr x'"
    by (auto simp: CausalConv1d_forward_def and_then_eq_Inr m)
  from pad have ne: "shape x \<noteq> []" and nn: "0 \<le> int (last (shape x)) + ?p"
    and xp: "xp = \<lparr>shape = butlast (shape x) @ [nat (int (last (shape x)) + ?p)],
        elem = (\<lambda>idx. if int (last idx) < ?p then 0
                      else elem x (butlast idx @ [nat (int (last idx) - ?p)]))\<rparr>"
    by (auto simp: F_pad_def Let_def split: if_splits)
  have lenp: "length (shape xp) = length (shape x)" using ne by (simp add: xp)
  from cf have r: "length (shape xp) = 2 \<or> length (shape xp) = 3"
    by (auto simp: Conv1d_forward_def Let_def split: if_splits)
  then have "length (shape x) = 2 \<or> length (shape x) = 3" using lenp by simp
  from rank_2_3_split[OF this] obtain pre C T
    where sh: "shape x = pre @ [C, T]" and pre: "length pre \<le> 1" by blast
  have shp: "shape xp = pre @ [C, nat (int T + ?p)]" by (simp add: xp sh butlast_append)
  from cf have ch: "int C = in_channels cv"
    by (auto simp: Conv1d_forward_def Let_def shp nth_append split: if_splits)
  have len: "stride cv \<le> int T"
  proof (rule ccontr)
    assume "\<not> stride cv \<le> int T"
    then have "int T < stride cv" by simp
    from CausalConv1d_forward_short[OF ok sh this] fw show False by simp
  qed
  from CausalConv1d_forward_shape[OF ok sh pre ch len] fw
  have s': "shape x' = pre @ [nat (out_channels cv), T div nat (stride cv)]" by auto
  from cf have "elem x' = Conv1d_elem cv xp"
    by (auto simp: Conv1d_forward_def Let_def split: if_splits)
  then have e: "elem x' = Conv1d_elem cv
             \<lparr>shape = pre @ [C, nat (int T + ?p)],
              elem = (\<lambda>idx. if int (last idx) < ?p then 0
                         else elem x (butlast idx @ [nat (int (last idx) - ?p)]))\<rparr>"
    by (simp add: xp sh butlast_append)
  show ?thesis using sh pre ch len s' e by blast
qed

lemma valid_index_snoc2:
  assumes "valid_index (pre @ [a, b]) idx"
  shows "\<exists>i oc j. idx = i @ [oc, j] \<and> valid_index pre i \<and> oc < a \<and> j < b"
proof -
  from valid_index_snoc[of "pre @ [a]" b idx] assms
  have 1: "idx \<noteq> []" and 2: "valid_index (pre @ [a]) (butlast idx)" and 3: "last idx < b"
    by simp_all
  from valid_index_snoc[of pre a "butlast idx"] 2
  have 4: "butlast idx \<noteq> []" and 5: "valid_index pre (butlast (butlast idx))"
    and 6: "last (butlast idx) < a"
    by simp_all
  have "idx = butlast (butlast idx) @ [last (butlast idx), last idx]"
    using 1 4 by (metis append.assoc append_Cons append_Nil append_butlast_last_id)
  with 3 5 6 show ?thesis by blast
qed

lemma group_channel_bound:
  fixes oc c :: nat
  assumes g: "1 \<le> g" and ci: "0 \<le> cin" and co: "0 \<le> cout"
    and di: "cin mod g = 0" and do: "cout mod g = 0"
    and oc: "oc < nat cout" and c: "c < nat (cin div g)"
  shows "(oc div nat (cout div g)) * nat (cin div g) + c < nat cin"
proof -
  define G where "G = nat g"
  define og where "og = nat (cout div g)"
  define cg where "cg = nat (cin div g)"
  have G: "0 < G" using g by (simp add: G_def)
  have "cout = g * (cout div g)" using do by (simp add: mod_eq_0_iff_dvd)
  then have "nat cout = nat (g * (cout div g))" by simp
  also have "\<dots> = G * og" using g co by (simp add: G_def og_def nat_mult_distrib)
  finally have co': "nat cout = G * og" .
  have "cin = g * (cin div g)" using di by (simp add: mod_eq_0_iff_dvd)
  then have "nat cin = nat (g * (cin div g))" by simp
  also have "\<dots> = G * cg" using g ci by (simp add: G_def cg_def nat_mult_distrib)
  finally have ci': "nat cin = G * cg" .
  have "oc < G * og" using oc co' by simp
  then have "oc div og < G" by (rule less_mult_imp_div_less)
  then have "oc div og + 1 \<le> G" by simp
  then have "(oc div og + 1) * cg \<le> G * cg" by (rule mult_le_mono1)
  moreover have "(oc div og) * cg + c < (oc div og + 1) * cg" using c by (simp add: cg_def)
  ultimately show ?thesis using ci' by (simp add: og_def cg_def)
qed

lemma causal_window_bound:
  fixes j m n :: nat and s d k :: int
  assumes s: "1 \<le> s" and d: "1 \<le> d" and m: "m < nat k" and j: "j < n div nat s"
  shows "int j * s + int m * d - (d * (k - 1) - (s - 1)) < int n"
proof -
  have "int m \<le> k - 1" using m by linarith
  then have md: "int m * d \<le> (k - 1) * d" using d by (intro mult_right_mono) simp_all
  have "Suc j \<le> n div nat s" using j by simp
  then have "Suc j * nat s \<le> n"
    using s by (simp add: less_eq_div_iff_mult_less_eq)
  then have "int (Suc j * nat s) \<le> int n" by (simp only: of_nat_le_iff)
  then have js: "(int j + 1) * s \<le> int n" using s by (simp add: algebra_simps)
  have "int j * s + int m * d - (d * (k - 1) - (s - 1)) \<le> int j * s + s - 1"
    using md by (simp add: algebra_simps)
  also have "\<dots> < (int j + 1) * s" by (simp add: algebra_simps)
  finally show ?thesis using js by linarith
qed

lemma sum_list_cong2:
  fixes f g :: "'b \<Rightarrow> 'c \<Rightarrow> 'a::monoid_add"
  assumes "\<And>c m. c \<in> set xs \<Longrightarrow> m \<in> set ys \<Longrightarrow> f c m = g c m"
  shows "(\<Sum>c\<leftarrow>xs. \<Sum>m\<leftarrow>ys. f c m) = (\<Sum>c\<leftarrow>xs. \<Sum>m\<leftarrow>ys. g c m)"
proof -
  have "sum_list (map (f c) ys) = sum_list (map (g c) ys)" if "c \<in> set xs" for c
  proof -
    have "map (f c) ys = map (g c) ys" using assms that by (intro map_cong refl)
    then show ?thesis by (rule arg_cong)
  qed
  then have "map (\<lambda>c. sum_list (map (f c) ys)) xs = map (\<lambda>c. sum_list (map (g c) ys)) xs"
    by (intro map_cong refl)
  then show ?thesis by (rule arg_cong)
qed

lemma causal_layer_conv:
  fixes cv :: "'a::semiring_0 CausalConv1d"
  assumes ok: "causal_ok cv"
  shows "causal_layer elu (MCausalConv1d cv) (nat (stride cv))"
  unfolding causal_layer_def
proof (intro allI impI)
  fix n and x y x' y' :: "'a tensor"
  assume a: "agree_upto n x y \<and> forward elu (MCausalConv1d cv) x = Inr x' \<and>
             forward elu (MCausalConv1d cv) y = Inr y'"
  let ?s = "stride cv" and ?d = "dilation cv" and ?k = "kernel_size cv" and ?p = "causal_padding cv"
  from ok have s: "1 \<le> ?s" and d: "1 \<le> ?d" and k: "1 \<le> ?k"
    and p: "?p = ?d * (?k - 1) - (?s - 1)"
    and g: "1 \<le> groups cv" and ci: "0 \<le> in_channels cv" and co: "0 \<le> out_channels cv"
    and di: "in_channels cv mod groups cv = 0" and do: "out_channels cv mod groups cv = 0"
    by (simp_all add: causal_ok_def)
  from a have ag: "agree_upto n x y" and fx: "CausalConv1d_forward cv x = Inr x'"
    and fy: "CausalConv1d_forward cv y = Inr y'" by simp_all
  define px where "px = (\<lambda>idx. if int (last idx) < ?p then 0
                         else elem x (butlast idx @ [nat (int (last idx) - ?p)]))"
  define py where "py = (\<lambda>idx. if int (last idx) < ?p then 0
                         else elem y (butlast idx @ [nat (int (last idx) - ?p)]))"
  from CausalConv1d_forward_Inr[OF ok fx] obtain pre C T
    where sx: "shape x = pre @ [C, T]" and pre: "length pre \<le> 1" and ch: "int C = in_channels cv"
      and sx': "shape x' = pre @ [nat (out_channels cv), T div nat ?s]"
      and ex: "elem x' = Conv1d_elem cv \<lparr>shape = pre @ [C, nat (int T + ?p)], elem = px\<rparr>"
    unfolding px_def by blast
  from CausalConv1d_forward_Inr[OF ok fy] obtain pre' C' T'
    where sy: "shape y = pre' @ [C', T']"
      and sy': "shape y' = pre' @ [nat (out_channels cv), T' div nat ?s]"
      and ey: "elem y' = Conv1d_elem cv \<lparr>shape = pre' @ [C', nat (int T' + ?p)], elem = py\<rparr>"
    unfolding py_def by blast
  from ag have bl: "butlast (shape x) = butlast (shape y)" and nT: "n \<le> T" and nT': "n \<le> T'"
    and eq: "\<And>idx. valid_index (butlast (shape x) @ [n]) idx \<Longrightarrow> elem x idx = elem y idx"
    by (simp_all add: agree_upto_def sx sy)
  from bl have pp: "pre' = pre" and CC: "C' = C" by (simp_all add: sx sy butlast_append)
  have C: "C = nat (in_channels cv)" using ch by simp
  have elems: "elem x' idx = elem y' idx"
    if v: "valid_index (pre @ [nat (out_channels cv), n div nat ?s]) idx" for idx
  proof -
    from valid_index_snoc2[OF v] obtain i oc j
      where idx: "idx = i @ [oc, j]" and vi: "valid_index pre i"
        and oc: "oc < nat (out_channels cv)" and j: "j < n div nat ?s" by blast
    have li: "length i = length pre" using vi by (rule valid_index_length)
    have inner: "px (i @ [(oc div nat (out_channels cv div groups cv)) * nat (in_channels cv div groups cv) + c,
                        nat (int j * ?s + int m * ?d)])
               = py (i @ [(oc div nat (out_channels cv div groups cv)) * nat (in_channels cv div groups cv) + c,
                        nat (int j * ?s + int m * ?d)])"
      if c: "c < nat (in_channels cv div groups cv)" and m: "m < nat ?k" for c m
    proof -
      define ch' where "ch' = (oc div nat (out_channels cv div groups cv)) * nat (in_channels cv div groups cv) + c"
      define t where "t = nat (int j * ?s + int m * ?d)"
      have t: "int t = int j * ?s + int m * ?d" using s d by (simp add: t_def)
      have "px (i @ [ch', t]) = py (i @ [ch', t])"
      proof (cases "int t < ?p")
        case True
        then show ?thesis by (simp add: px_def py_def)
      next
        case False
        have chb: "ch' < C" unfolding C ch'_def using g ci co di do oc c by (rule group_channel_bound)
        have "int t - ?p < int n"
          unfolding t p using s d m j by (rule causal_window_bound)
        then have tb: "nat (int t - ?p) < n" using False by linarith
        have "valid_index ((pre @ [C]) @ [n]) ((i @ [ch']) @ [nat (int t - ?p)])"
          using vi chb tb by (simp only: valid_index_snoc_snoc simp_thms)
        then have "valid_index (butlast (shape x) @ [n]) ((i @ [ch']) @ [nat (int t - ?p)])"
          by (simp add: sx butlast_append)
        from eq[OF this] show ?thesis using False by (simp add: px_def py_def butlast_append)
      qed
      then show ?thesis by (simp only: ch'_def t_def)
    qed
    have sums: "(\<Sum>c\<leftarrow>[0..<nat (in_channels cv div groups cv)]. \<Sum>m\<leftarrow>[0..<nat ?k].
           weight (theta cv) [oc, c, m] *
           px (i @ [(oc div nat (out_channels cv div groups cv)) * nat (in_channels cv div groups cv) + c,
                    nat (int j * ?s + int m * ?d)]))
       = (\<Sum>c\<leftarrow>[0..<nat (in_channels cv div groups cv)]. \<Sum>m\<leftarrow>[0..<nat ?k].
           weight (theta cv) [oc, c, m] *
           py (i @ [(oc div nat (out_channels cv div groups cv)) * nat (in_channels cv div groups cv) + c,
                    nat (int j * ?s + int m * ?d)]))"
      by (rule sum_list_cong2) (simp add: inner)
    have "Conv1d_elem cv \<lparr>shape = pre @ [C, nat (int T + ?p)], elem = px\<rparr> idx
        = Conv1d_elem cv \<lparr>shape = pre @ [C, nat (int T' + ?p)], elem = py\<rparr> idx"
      unfolding Conv1d_elem_def Let_def
      by (simp add: idx li nth_append sums)
    then show ?thesis by (simp add: ex ey pp CC)
  qed
  have "n div nat ?s \<le> T div nat ?s" "n div nat ?s \<le> T' div nat ?s"
    using nT nT' by (simp_all add: div_le_mono)
  then show "agree_upto (n div nat ?s) x' y'"
    using elems by (simp add: agree_upto_def sx' sy' pp butlast_append)
qed

lemma causal_layerD:
  assumes "causal_layer elu m s" "agree_upto n x y"
    "forward elu m x = Inr x'" "forward elu m y = Inr y'"
  shows "agree_upto (n div s) x' y'"
  using assms unfolding causal_layer_def by blast

lemma causal_layer_ELU: "causal_layer elu MELU 1"
  by (auto simp: causal_layer_def agree_upto_def tensor_map_def)

lemma causal_layer_Nil: "causal_layer elu (Sequential []) 1"
  by (simp add: causal_layer_def)

lemma causal_layer_Cons:
  assumes m: "causal_layer elu m s" and ms: "causal_layer elu (Sequential ms) q"
  shows "causal_layer elu (Sequential (m # ms)) (s * q)"
  unfolding causal_layer_def
proof (intro allI impI)
  fix n and x y x' y' :: "'a tensor"
  assume a: "agree_upto n x y \<and> forward elu (Sequential (m # ms)) x = Inr x' \<and>
             forward elu (Sequential (m # ms)) y = Inr y'"
  then obtain x1 y1 where x1: "forward elu m x = Inr x1"
    and x': "forward elu (Sequential ms) x1 = Inr x'"
    and y1: "forward elu m y = Inr y1"
    and y': "forward elu (Sequential ms) y1 = Inr y'"
    by (auto split: sum.splits)
  from a have "agree_upto n x y" by simp
  from causal_layerD[OF m this x1 y1] have "agree_upto (n div s) x1 y1" .
  from causal_layerD[OF ms this x' y'] show "agree_upto (n div (s * q)) x' y'"
    by (simp add: div_mult2_eq)
qed

lemma valid_index_mono_last:
  assumes "sh \<noteq> []" "n \<le> last sh" "valid_index (butlast sh @ [n]) idx"
  shows "valid_index sh idx"
proof -
  from assms(3) have "idx \<noteq> [] \<and> valid_index (butlast sh) (butlast idx) \<and> last idx < n"
    using valid_index_snoc[of "butlast sh" n idx] by blast
  then have "idx \<noteq> [] \<and> valid_index (butlast sh) (butlast idx) \<and> last idx < last sh"
    using assms(2) by auto
  then have "valid_index (butlast sh @ [last sh]) idx"
    using valid_index_snoc[of "butlast sh" "last sh" idx] by blast
  then show ?thesis using assms(1) by simp
qed

lemma causal_layer_Residual:
  assumes cl: "causal_layer elu fn 1"
    and sp: "\<And>x fx. forward elu fn x = Inr fx \<Longrightarrow> shape fx = shape x"
  shows "causal_layer elu (Residual fn) 1"
  unfolding causal_layer_def
proof (intro allI impI)
  fix n and x y x' y' :: "'a tensor"
  assume a: "agree_upto n x y \<and> forward elu (Residual fn) x = Inr x' \<and>
             forward elu (Residual fn) y = Inr y'"
  then obtain fx fy where fx: "forward elu fn x = Inr fx" and ax: "tensor_add fx x = Inr x'"
    and fy: "forward elu fn y = Inr fy" and ay: "tensor_add fy y = Inr y'"
    by (auto split: sum.splits)
  from a have ag: "agree_upto n x y" by simp
  from causal_layerD[OF cl ag fx fy] have agf: "agree_upto n fx fy" by simp
  from tensor_add_same_shape[OF sp[OF fx]] ax
  have sx': "shape x' = shape x"
    and ex': "\<And>idx. valid_index (shape x) idx \<Longrightarrow> elem x' idx = elem fx idx + elem x idx"
    using sp[OF fx] by auto
  from tensor_add_same_shape[OF sp[OF fy]] ay
  have sy': "shape y' = shape y"
    and ey': "\<And>idx. valid_index (shape y) idx \<Longrightarrow> elem y' idx = elem fy idx + elem y idx"
    using sp[OF fy] by auto
  have "elem x' idx = elem y' idx" if v: "valid_index (butlast (shape x) @ [n]) idx" for idx
  proof -
    from ag have nx: "shape x \<noteq> []" "n \<le> last (shape x)" and ny: "shape y \<noteq> []" "n \<le> last (shape y)"
      and bl: "butlast (shape x) = butlast (shape y)"
      by (simp_all add: agree_upto_def)
    have vx: "valid_index (shape x) idx" using nx v by (rule valid_index_mono_last)
    have vy: "valid_index (shape y) idx" using ny v[unfolded bl] by (rule valid_index_mono_last)
    have "elem x idx = elem y idx" using ag v by (simp add: agree_upto_def)
    moreover have "elem fx idx = elem fy idx"
      using agf v sp[OF fx] by (simp add: agree_upto_def)
    ultimately show ?thesis using ex'[OF vx] ey'[OF vy] by simp
  qed
  then show "agree_upto (n div 1) x' y'"
    using ag by (simp add: agree_upto_def sx' sy')
qed

lemma conv_preserves_shape:
  fixes cv :: "'a::semiring_0 CausalConv1d"
  assumes ok: "causal_ok cv" and st: "stride cv = 1" and io: "out_channels cv = in_channels cv"
    and fw: "CausalConv1d_forward cv x = Inr x'"
  shows "shape x' = shape x"
proof -
  from CausalConv1d_forward_Inr[OF ok fw] obtain pre C T
    where "shape x = pre @ [C, T]" "int C = in_channels cv"
      "shape x' = pre @ [nat (out_channels cv), T div nat (stride cv)]"
    by blast
  then show ?thesis using st io by (simp add: nat_eq_iff2)
qed

lemma ResidualUnit_causal:
  assumes u: "ResidualUnit c d k [] st = Inr m" and d: "1 \<le> d" and k: "1 \<le> k"
  shows "causal_layer elu m 1"
proof -
  from ResidualUnit_Inr[OF u] obtain c1 c2
    where m: "m = Residual (Sequential [MCausalConv1d c1, MELU, MCausalConv1d c2, MELU])"
      and c1: "CausalConv1d_init c c k 1 d ''zeros'' [] (st [0]) = Inr c1"
      and c2: "CausalConv1d_init c c 1 1 1 ''zeros'' [] (st [2]) = Inr c2"
    by blast
  have ok1: "causal_ok c1" using c1 k _ d by (rule CausalConv1d_init_ok) simp
  have ok2: "causal_ok c2" using c2 by (rule CausalConv1d_init_ok) simp_all
  note f1 = CausalConv1d_init_fields[OF c1] and f2 = CausalConv1d_init_fields[OF c2]
  have l1: "causal_layer elu (MCausalConv1d c1) 1"
    using causal_layer_conv[OF ok1, of elu] f1 by simp
  have l2: "causal_layer elu (MCausalConv1d c2) 1"
    using causal_layer_conv[OF ok2, of elu] f2 by simp
  have cl: "causal_layer elu (Sequential [MCausalConv1d c1, MELU, MCausalConv1d c2, MELU]) 1"
    using causal_layer_Cons[OF l1 causal_layer_Cons[OF causal_layer_ELU
          causal_layer_Cons[OF l2 causal_layer_Cons[OF causal_layer_ELU causal_layer_Nil]]]]
    by simp
  have sp: "shape fx = shape x"
    if fw: "forward elu (Sequential [MCausalConv1d c1, MELU, MCausalConv1d c2, MELU]) x = Inr fx"
    for x fx :: "'a tensor"
  proof -
    from fw obtain y1 y2 where y1: "CausalConv1d_forward c1 x = Inr y1"
      and y2: "CausalConv1d_forward c2 (tensor_map elu y1) = Inr y2"
      and fx: "fx = tensor_map elu y2"
      by (auto split: sum.splits)
    have "shape y1 = shape x"
      using conv_preserves_shape[OF ok1 _ _ y1] f1 by simp
    moreover have "shape y2 = shape (tensor_map elu y1)"
      using conv_preserves_shape[OF ok2 _ _ y2] f2 by simp
    ultimately show ?thesis by (simp add: fx tensor_map_def)
  qed
  show ?thesis unfolding m by (rule causal_layer_Residual[OF cl sp])
qed

lemma EncoderBlock_causal:
  assumes b: "EncoderBlock cin cout s st = Inr m" and s: "1 \<le> s"
  shows "causal_layer elu m (nat s)"
proof -
  from b obtain r1 r2 r3 cv
    where m: "m = Sequential [r1, r2, r3, MCausalConv1d cv, MELU]"
      and r1: "ResidualUnit cin 1 7 [] (child 0 st) = Inr r1"
      and r2: "ResidualUnit cin 3 7 [] (child 1 st) = Inr r2"
      and r3: "ResidualUnit cin 9 7 [] (child 2 st) = Inr r3"
      and cv: "CausalConv1d_init cin cout (2 * s) s 1 ''zeros'' [] (st [3]) = Inr cv"
    by (auto simp: EncoderBlock_def and_then_eq_Inr simp del: sequence.simps)
  have ok: "causal_ok cv" using cv _ s by (rule CausalConv1d_init_ok) (use s in simp_all)
  have lc: "causal_layer elu (MCausalConv1d cv) (nat s)"
    using causal_layer_conv[OF ok, of elu] CausalConv1d_init_fields[OF cv] by simp
  show ?thesis unfolding m
    using causal_layer_Cons[OF ResidualUnit_causal[OF r1, of elu]
          causal_layer_Cons[OF ResidualUnit_causal[OF r2, of elu]
          causal_layer_Cons[OF ResidualUnit_causal[OF r3, of elu]
          causal_layer_Cons[OF lc causal_layer_Cons[OF causal_layer_ELU causal_layer_Nil]]]]]
    by simp
qed

lemma Encoder_mid_causal:
  assumes stem: "CausalConv1d_init 1 scale 7 1 1 ''zeros'' [] th1 = Inr stem"
    and b1: "EncoderBlock scale (2 * scale) 2 st1 = Inr b1"
    and b2: "EncoderBlock (2 * scale) (4 * scale) 4 st2 = Inr b2"
    and b3: "EncoderBlock (4 * scale) (8 * scale) 5 st3 = Inr b3"
    and b4: "EncoderBlock (8 * scale) (16 * scale) 8 st4 = Inr b4"
    and outc: "CausalConv1d_init (16 * scale) emb 3 1 1 ''zeros'' [] th2 = Inr outc"
  shows "causal_layer elu
     (Sequential [MCausalConv1d stem, MELU, b1, b2, b3, b4, MCausalConv1d outc, MELU]) 320"
proof -
  have ok1: "causal_ok stem" using stem by (rule CausalConv1d_init_ok) simp_all
  have ok2: "causal_ok outc" using outc by (rule CausalConv1d_init_ok) simp_all
  have l1: "causal_layer elu (MCausalConv1d stem) 1"
    using causal_layer_conv[OF ok1, of elu] CausalConv1d_init_fields[OF stem] by simp
  have l2: "causal_layer elu (MCausalConv1d outc) 1"
    using causal_layer_conv[OF ok2, of elu] CausalConv1d_init_fields[OF outc] by simp
  show ?thesis
    using causal_layer_Cons[OF l1 causal_layer_Cons[OF causal_layer_ELU
          causal_layer_Cons[OF EncoderBlock_causal[OF b1, of elu]
          causal_layer_Cons[OF EncoderBlock_causal[OF b2, of elu]
          causal_layer_Cons[OF EncoderBlock_causal[OF b3, of elu]
          causal_layer_Cons[OF EncoderBlock_causal[OF b4, of elu]
          causal_layer_Cons[OF l2 causal_layer_Cons[OF causal_layer_ELU causal_layer_Nil]]]]]]]]
    by simp
qed

section \<open>Causality of the Encoder\<close>

lemma Encoder_forward_decompose:
  assumes "Encoder_forward elu (Sequential (MRearrange AddChannel # mid @ [MRearrange SwapLastTwo])) x
             = Inr ex"
  shows "\<exists>x1 mx. Rearrange_forward AddChannel x = Inr x1 \<and>
           forward elu (Sequential mid) x1 = Inr mx \<and>
           Rearrange_forward SwapLastTwo mx = Inr ex"
  using assms
  by (auto simp: Encoder_forward_def Sequential_forward_append simp del: Rearrange_forward.simps
      split: sum.splits)

lemma AddChannel_agree:
  assumes sx: "shape x = pre @ [Tx]" and sy: "shape y = pre @ [Ty]"
    and n: "n \<le> Tx" "n \<le> Ty"
    and same: "\<And>idx. valid_index (pre @ [n]) idx \<Longrightarrow> elem x idx = elem y idx"
    and x1: "Rearrange_forward AddChannel x = Inr x1"
    and y1: "Rearrange_forward AddChannel y = Inr y1"
  shows "agree_upto n x1 y1"
proof -
  from x1 have sx1: "shape x1 = pre @ [1, Tx]"
    and ex1: "elem x1 = (\<lambda>idx. elem x (butlast (butlast idx) @ [last idx]))"
    by (auto simp: sx)
  from y1 have sy1: "shape y1 = pre @ [1, Ty]"
    and ey1: "elem y1 = (\<lambda>idx. elem y (butlast (butlast idx) @ [last idx]))"
    by (auto simp: sy)
  have "elem x1 idx = elem y1 idx" if v: "valid_index (pre @ [1, n]) idx" for idx
  proof -
    from valid_index_snoc2[OF v] obtain i oc j
      where idx: "idx = i @ [oc, j]" and vi: "valid_index pre i" and j: "j < n" by blast
    have "valid_index (pre @ [n]) (i @ [j])" using vi j by simp
    from same[OF this] show ?thesis by (simp add: ex1 ey1 idx butlast_append)
  qed
  then show ?thesis using n by (simp add: agree_upto_def sx1 sy1 butlast_append)
qed

text \<open>
  Claim C1. Two waveforms of shape \<^verbatim>\<open>(samples)\<close> or \<^verbatim>\<open>(batch, samples)\<close>, each with at least
  320 samples, that are equal on the samples \<open>0, \<dots>, t\<close>: the Encoder returns for both, and
  the two outputs are equal in every frame \<open>j\<close> whose receptive field ends at or before
  \<open>t\<close>, that is with \<open>320 * (j + 1) \<le> t + 1\<close>. Both outputs have these frames.
\<close>

theorem Encoder_causal:
  fixes x y :: "'a::semiring_0 tensor"
  assumes scale: "1 \<le> scale" and emb: "1 \<le> embedding_dim"
    and sx: "shape x = pre @ [Tx]" and sy: "shape y = pre @ [Ty]" and pre: "length pre \<le> 1"
    and lx: "320 \<le> Tx" and ly: "320 \<le> Ty" and tx: "t < Tx" and ty: "t < Ty"
    and same: "\<forall>idx. valid_index (pre @ [Suc t]) idx \<longrightarrow> elem x idx = elem y idx"
  shows "\<exists>enc ex ey. Encoder scale embedding_dim st = Inr enc \<and>
     Encoder_forward elu enc x = Inr ex \<and> Encoder_forward elu enc y = Inr ey \<and>
     shape ex = pre @ [Tx div 320, nat embedding_dim] \<and>
     shape ey = pre @ [Ty div 320, nat embedding_dim] \<and>
     Suc t div 320 \<le> Tx div 320 \<and> Suc t div 320 \<le> Ty div 320 \<and>
     (\<forall>idx. valid_index (pre @ [Suc t div 320, nat embedding_dim]) idx
            \<longrightarrow> elem ex idx = elem ey idx)"
proof -
  obtain enc :: "'a module" where enc: "Encoder scale embedding_dim st = Inr enc"
    using Encoder_succeeds[of scale embedding_dim st] scale emb by auto
  from Encoder_forward_shape[OF enc sx pre, of elu] lx
  obtain ex where ex: "Encoder_forward elu enc x = Inr ex"
    and sex: "shape ex = pre @ [Tx div 320, nat embedding_dim]" by auto
  from Encoder_forward_shape[OF enc sy pre, of elu] ly
  obtain ey where ey: "Encoder_forward elu enc y = Inr ey"
    and sey: "shape ey = pre @ [Ty div 320, nat embedding_dim]" by auto
  from Encoder_Inr[OF enc] obtain stem b1 b2 b3 b4 outc
    where e: "enc = Sequential (MRearrange AddChannel #
             [MCausalConv1d stem, MELU, b1, b2, b3, b4, MCausalConv1d outc, MELU] @
             [MRearrange SwapLastTwo])"
      and stem: "CausalConv1d_init 1 scale 7 1 1 ''zeros'' [] (st [1]) = Inr stem"
      and b1: "EncoderBlock scale (2 * scale) 2 (child 3 st) = Inr b1"
      and b2: "EncoderBlock (2 * scale) (4 * scale) 4 (child 4 st) = Inr b2"
      and b3: "EncoderBlock (4 * scale) (8 * scale) 5 (child 5 st) = Inr b3"
      and b4: "EncoderBlock (8 * scale) (16 * scale) 8 (child 6 st) = Inr b4"
      and outc: "CausalConv1d_init (16 * scale) embedding_dim 3 1 1 ''zeros'' [] (st [7]) = Inr outc"
    by blast
  let ?mid = "[MCausalConv1d stem, MELU, b1, b2, b3, b4, MCausalConv1d outc, MELU]"
  note cl = Encoder_mid_causal[OF stem b1 b2 b3 b4 outc, of elu]
  from Encoder_forward_decompose[OF ex[unfolded e]] obtain x1 mx
    where x1: "Rearrange_forward AddChannel x = Inr x1"
      and mx: "forward elu (Sequential ?mid) x1 = Inr mx"
      and rx: "Rearrange_forward SwapLastTwo mx = Inr ex" by blast
  from Encoder_forward_decompose[OF ey[unfolded e]] obtain y1 my
    where y1: "Rearrange_forward AddChannel y = Inr y1"
      and my: "forward elu (Sequential ?mid) y1 = Inr my"
      and ry: "Rearrange_forward SwapLastTwo my = Inr ey" by blast
  have "agree_upto (Suc t) x1 y1"
    using sx sy _ _ _ x1 y1
  proof (rule AddChannel_agree)
    show "Suc t \<le> Tx" "Suc t \<le> Ty" using tx ty by simp_all
    show "\<And>idx. valid_index (pre @ [Suc t]) idx \<Longrightarrow> elem x idx = elem y idx"
      using same by blast
  qed
  from causal_layerD[OF cl this mx my] have ag: "agree_upto (Suc t div 320) mx my" .
  from rx have emx: "elem ex = (\<lambda>idx. elem mx (swap_last_two idx))"
    and smx: "shape ex = swap_last_two (shape mx)" and rmx: "2 \<le> length (shape mx)"
    by (auto split: if_splits)
  from ry have emy: "elem ey = (\<lambda>idx. elem my (swap_last_two idx))"
    by (auto split: if_splits)
  from Encoder_mid_downsamples[OF stem b1 b2 b3 b4 outc, of elu] x1 mx lx pre
  have shmx: "shape mx = pre @ [nat embedding_dim, Tx div 320]"
    unfolding downsamples_def shape_map_def
    by (auto simp: sx dest!: spec[where x = x1])
  have "elem ex idx = elem ey idx"
    if v: "valid_index (pre @ [Suc t div 320, nat embedding_dim]) idx" for idx
  proof -
    from valid_index_snoc2[OF v] obtain i j c
      where idx: "idx = i @ [j, c]" and vi: "valid_index pre i"
        and j: "j < Suc t div 320" and c: "c < nat embedding_dim" by blast
    have sw: "swap_last_two idx = i @ [c, j]" by (simp add: idx swap_last_two_snoc)
    have "valid_index ((pre @ [nat embedding_dim]) @ [Suc t div 320]) ((i @ [c]) @ [j])"
      using vi j c by (simp only: valid_index_snoc_snoc simp_thms)
    then have "valid_index (butlast (shape mx) @ [Suc t div 320]) (i @ [c, j])"
      by (simp add: shmx butlast_append)
    with ag have "elem mx (i @ [c, j]) = elem my (i @ [c, j])"
      by (simp add: agree_upto_def)
    then show ?thesis by (simp add: emx emy sw)
  qed
  moreover have "Suc t div 320 \<le> Tx div 320" "Suc t div 320 \<le> Ty div 320"
    using tx ty by (simp_all add: div_le_mono)
  ultimately show ?thesis using enc ex ey sex sey by blast
qed

theorem Encoder_causal_witness:
  "\<exists>ex ey. Encoder_forward id (projr (Encoder 2 3 (const_store 1 1)))
              (zeros [640] :: int tensor) = Inr ex \<and>
           Encoder_forward id (projr (Encoder 2 3 (const_store 1 1)))
              (step_tensor [960] 400 :: int tensor) = Inr ey \<and>
           shape ex = [2, 3] \<and> shape ey = [3, 3] \<and>
           (\<forall>c < 3. elem ex [0, c] = elem ey [0, c])"
proof -
  have sx: "shape (zeros [640] :: int tensor) = [] @ [640]" by (simp add: zeros_def)
  have sy: "shape (step_tensor [960] 400 :: int tensor) = [] @ [960]" by (simp add: step_tensor_def)
  have same: "\<forall>idx. valid_index ([] @ [Suc 399]) idx \<longrightarrow>
      elem (zeros [640] :: int tensor) idx = elem (step_tensor [960] 400 :: int tensor) idx"
  proof (intro allI impI)
    fix idx :: "nat list"
    assume "valid_index ([] @ [Suc 399]) idx"
    with valid_index_snoc[of "[]" "Suc 399" idx] have "last idx < 400" by simp
    then show "elem (zeros [640] :: int tensor) idx = elem (step_tensor [960] 400 :: int tensor) idx"
      by (simp add: zeros_def step_tensor_def)
  qed
  from Encoder_causal[of 2 3 "zeros [640] :: int tensor" "[]" 640 "step_tensor [960] 400" 960 399
      "const_store 1 1" id, OF _ _ sx sy _ _ _ _ _ same]
  obtain enc ex ey where enc: "Encoder 2 3 (const_store 1 1) = Inr enc"
    and ex: "Encoder_forward id enc (zeros [640] :: int tensor) = Inr ex"
    and ey: "Encoder_forward id enc (step_tensor [960] 400 :: int tensor) = Inr ey"
    and sh: "shape ex = [2, 3]" "shape ey = [3, 3]"
    and eq: "\<forall>idx. valid_index [1, 3] idx \<longrightarrow> elem ex idx = elem ey idx"
    by auto
  have "elem ex [0, c] = elem ey [0, c]" if "c < 3" for c
  proof -
    have "valid_index ([] @ [1, 3]) ([] @ [0, c])" using that
      by (simp add: valid_index_def)
    then show ?thesis using eq by simp
  qed
  then show ?thesis using enc ex ey sh by auto
qed

end
